(* ===== verification/Prelude.thy ===== *)
theory Prelude
  imports Main "HOL-Library.Word" "HOL-Library.Sublist"
begin

unbundle bit_operations_syntax

section \<open>Shared vocabulary of the packet-path model\<close>

text \<open>
  Machine integers of the 32-bit little-endian ARM target, byte order conversion
  (\<^verbatim>\<open>include/linux/byteorder/swab.h\<close>), TCP sequence-number comparison
  (\<^verbatim>\<open>include/net/tcp.h\<close>), byte-addressed reads and writes of packet buffers, the
  netfilter verdicts and hook numbers (\<^verbatim>\<open>include/linux/netfilter.h\<close>,
  \<^verbatim>\<open>include/linux/netfilter_ipv4.h\<close>), and the lemma collections the component
  theories share.

  Network-order struct fields are kept as the CPU loads them: a field read from a packet
  is the raw little-endian load of its bytes, and every \<open>ntohs\<close>/\<open>ntohl\<close> of the
  source is written out.
\<close>

named_theorems swab_simps \<open>byte-order conversions cancel\<close>
named_theorems buf_simps \<open>reads over writes of packet buffers\<close>
named_theorems seq_simps \<open>sequence-number comparison\<close>

type_synonym u8 = "8 word"
type_synonym u16 = "16 word"
type_synonym u32 = "32 word"
type_synonym u64 = "64 word"

subsection \<open>Byte order\<close>

definition swab16 :: "u16 \<Rightarrow> u16" where
  "swab16 x = push_bit 8 (x AND 0x00ff) OR drop_bit 8 (x AND 0xff00)"

definition swab32 :: "u32 \<Rightarrow> u32" where
  "swab32 x = push_bit 24 (x AND 0x000000ff) OR push_bit 8 (x AND 0x0000ff00)
     OR drop_bit 8 (x AND 0x00ff0000) OR drop_bit 24 (x AND 0xff000000)"

abbreviation ntohs :: "u16 \<Rightarrow> u16" where "ntohs \<equiv> swab16"
abbreviation htons :: "u16 \<Rightarrow> u16" where "htons \<equiv> swab16"
abbreviation ntohl :: "u32 \<Rightarrow> u32" where "ntohl \<equiv> swab32"
abbreviation htonl :: "u32 \<Rightarrow> u32" where "htonl \<equiv> swab32"

lemma bit_0x00ff: "bit (0x00ff :: u16) n \<longleftrightarrow> n < 8"
proof -
  have *: "(0x00ff :: u16) = mask 8" by (simp add: mask_eq_exp_minus_1)
  show ?thesis unfolding * by (auto simp: bit_mask_iff)
qed

lemma bit_0xff00: "bit (0xff00 :: u16) n \<longleftrightarrow> 8 \<le> n \<and> n < 16"
proof -
  have *: "(0xff00 :: u16) = push_bit 8 (mask 8)" by (simp add: mask_eq_exp_minus_1)
  show ?thesis unfolding * by (auto simp: bit_mask_iff bit_push_bit_iff)
qed

lemma bit_u32_byte:
  "bit (0x000000ff :: u32) n \<longleftrightarrow> n < 8"
  "bit (0x0000ff00 :: u32) n \<longleftrightarrow> 8 \<le> n \<and> n < 16"
  "bit (0x00ff0000 :: u32) n \<longleftrightarrow> 16 \<le> n \<and> n < 24"
  "bit (0xff000000 :: u32) n \<longleftrightarrow> 24 \<le> n \<and> n < 32"
proof -
  have *: "(0x000000ff :: u32) = mask 8" "(0x0000ff00 :: u32) = push_bit 8 (mask 8)"
      "(0x00ff0000 :: u32) = push_bit 16 (mask 8)" "(0xff000000 :: u32) = push_bit 24 (mask 8)"
    by (simp_all add: mask_eq_exp_minus_1)
  show "bit (0x000000ff :: u32) n \<longleftrightarrow> n < 8"
    unfolding * by (auto simp: bit_mask_iff)
  show "bit (0x0000ff00 :: u32) n \<longleftrightarrow> 8 \<le> n \<and> n < 16"
    unfolding * by (auto simp: bit_mask_iff bit_push_bit_iff)
  show "bit (0x00ff0000 :: u32) n \<longleftrightarrow> 16 \<le> n \<and> n < 24"
    unfolding * by (auto simp: bit_mask_iff bit_push_bit_iff)
  show "bit (0xff000000 :: u32) n \<longleftrightarrow> 24 \<le> n \<and> n < 32"
    unfolding * by (auto simp: bit_mask_iff bit_push_bit_iff)
qed

lemmas bit_iffs = bit_or_iff bit_and_iff bit_xor_iff bit_push_bit_iff bit_drop_bit_eq o_def

lemma bit_swab16:
  "bit (swab16 x) n \<longleftrightarrow> n < 16 \<and> (if n < 8 then bit x (n + 8) else bit x (n - 8))"
  by (simp only: swab16_def bit_iffs bit_0x00ff bit_0xff00) (auto simp: add.commute)

lemma swab16_swab16 [simp, swab_simps]: "swab16 (swab16 x) = x"
  by (rule bit_word_eqI) (auto simp: bit_swab16)

lemma swab16_eq_iff [simp]: "swab16 x = swab16 y \<longleftrightarrow> x = y"
  by (metis swab16_swab16)

lemma bit_swab32:
  "bit (swab32 x) n \<longleftrightarrow> n < 32 \<and>
     (if n < 8 then bit x (n + 24) else if n < 16 then bit x (n + 8)
      else if n < 24 then bit x (n - 8) else bit x (n - 24))"
  by (simp only: swab32_def bit_iffs bit_u32_byte) (auto simp: add.commute)

lemma swab32_swab32 [simp, swab_simps]: "swab32 (swab32 x) = x"
  by (rule bit_word_eqI) (auto simp: bit_swab32)

lemma swab32_eq_iff [simp]: "swab32 x = swab32 y \<longleftrightarrow> x = y"
  by (metis swab32_swab32)

text \<open>Bitwise operations commute with the swap, so masking in network order is masking
  in host order.\<close>

lemma swab32_and: "swab32 (x AND y) = swab32 x AND swab32 y"
  by (rule bit_word_eqI) (auto simp: bit_swab32 bit_and_iff)

lemma swab16_0 [simp]: "swab16 0 = 0" by (simp add: swab16_def)
lemma swab32_0 [simp]: "swab32 0 = 0" by (simp add: swab32_def)

subsection \<open>Sequence numbers\<close>

definition before :: "u32 \<Rightarrow> u32 \<Rightarrow> bool" where
  "before seq1 seq2 \<longleftrightarrow> sint (seq1 - seq2) < 0"

definition after :: "u32 \<Rightarrow> u32 \<Rightarrow> bool" where
  "after seq1 seq2 \<longleftrightarrow> sint (seq2 - seq1) < 0"

lemma after_before [seq_simps]: "after a b \<longleftrightarrow> before b a"
  by (simp add: after_def before_def)

lemma not_before_self [simp, seq_simps]: "\<not> before a a"
  by (simp add: before_def)

lemma not_after_self [simp, seq_simps]: "\<not> after a a"
  by (simp add: after_def)

lemma before_Suc [simp, seq_simps]: "before a (a + 1)"
  by (simp add: before_def)

subsection \<open>Packet buffers\<close>

text \<open>
  A buffer is its list of bytes. The source reads header fields only after
  \<open>skb_header_pointer\<close> or a pull has made sure that they are there; a read past the end
  is 0 here. Where a loop of the source can run past its buffer the model has an explicit
  error value instead (for example \<open>tcp_options\<close>).
\<close>

definition rd8 :: "u8 list \<Rightarrow> nat \<Rightarrow> u8" where
  "rd8 b i = (if i < length b then b ! i else 0)"

definition rd16 :: "u8 list \<Rightarrow> nat \<Rightarrow> u16" where
  "rd16 b i = ucast (rd8 b i) OR push_bit 8 (ucast (rd8 b (i + 1)))"

definition rd32 :: "u8 list \<Rightarrow> nat \<Rightarrow> u32" where
  "rd32 b i = ucast (rd16 b i) OR push_bit 16 (ucast (rd16 b (i + 2)))"

definition wr8 :: "u8 list \<Rightarrow> nat \<Rightarrow> u8 \<Rightarrow> u8 list" where
  "wr8 b i v = b[i := v]"

definition wr16 :: "u8 list \<Rightarrow> nat \<Rightarrow> u16 \<Rightarrow> u8 list" where
  "wr16 b i v = wr8 (wr8 b i (ucast v)) (i + 1) (ucast (drop_bit 8 v))"

definition wr32 :: "u8 list \<Rightarrow> nat \<Rightarrow> u32 \<Rightarrow> u8 list" where
  "wr32 b i v = wr16 (wr16 b i (ucast v)) (i + 2) (ucast (drop_bit 16 v))"

lemma length_wr8 [simp]: "length (wr8 b i v) = length b" by (simp add: wr8_def)
lemma length_wr16 [simp]: "length (wr16 b i v) = length b" by (simp add: wr16_def)
lemma length_wr32 [simp]: "length (wr32 b i v) = length b" by (simp add: wr32_def)

lemma rd8_wr8 [buf_simps]:
  "rd8 (wr8 b i v) j = (if i = j \<and> j < length b then v else rd8 b j)"
  by (auto simp: rd8_def wr8_def)

lemma rd8_wr16_other [buf_simps]: "j < i \<or> i + 1 < j \<Longrightarrow> rd8 (wr16 b i v) j = rd8 b j"
  by (auto simp: wr16_def rd8_wr8)

lemma rd8_wr32_other [buf_simps]: "j < i \<or> i + 3 < j \<Longrightarrow> rd8 (wr32 b i v) j = rd8 b j"
  by (auto simp: wr32_def rd8_wr16_other)

lemma rd16_wr8_other [buf_simps]: "j + 1 < i \<or> i < j \<Longrightarrow> rd16 (wr8 b i v) j = rd16 b j"
  by (auto simp: rd16_def rd8_wr8)

lemma rd16_wr16_other [buf_simps]: "j + 1 < i \<or> i + 1 < j \<Longrightarrow> rd16 (wr16 b i v) j = rd16 b j"
  by (auto simp: rd16_def rd8_wr16_other)

lemma rd16_wr32_other [buf_simps]: "j + 1 < i \<or> i + 3 < j \<Longrightarrow> rd16 (wr32 b i v) j = rd16 b j"
  by (auto simp: rd16_def rd8_wr32_other)

lemma rd32_wr16_other [buf_simps]: "j + 3 < i \<or> i + 1 < j \<Longrightarrow> rd32 (wr16 b i v) j = rd32 b j"
  by (auto simp: rd32_def rd16_wr16_other)

lemma rd32_wr32_other [buf_simps]: "j + 3 < i \<or> i + 3 < j \<Longrightarrow> rd32 (wr32 b i v) j = rd32 b j"
  by (auto simp: rd32_def rd16_wr32_other)

lemma u16_split: "ucast (ucast (v :: u16) :: u8) OR push_bit 8 (ucast (ucast (drop_bit 8 v) :: u8)) = v"
  by (rule bit_word_eqI) (auto simp: bit_or_iff bit_push_bit_iff bit_ucast_iff bit_drop_bit_eq)

lemma u32_split: "ucast (ucast (v :: u32) :: u16) OR push_bit 16 (ucast (ucast (drop_bit 16 v) :: u16)) = v"
  by (rule bit_word_eqI) (auto simp: bit_or_iff bit_push_bit_iff bit_ucast_iff bit_drop_bit_eq)

lemma rd16_wr16 [buf_simps]: "i + 1 < length b \<Longrightarrow> rd16 (wr16 b i v) i = v"
  by (simp add: rd16_def wr16_def rd8_wr8 u16_split)

lemma rd32_wr32 [buf_simps]: "i + 3 < length b \<Longrightarrow> rd32 (wr32 b i v) i = v"
proof -
  assume "i + 3 < length b"
  then have "rd16 (wr32 b i v) i = ucast v" "rd16 (wr32 b i v) (i + 2) = ucast (drop_bit 16 v)"
    by (simp_all add: wr32_def rd16_wr16 rd16_wr16_other)
  then show ?thesis by (simp add: rd32_def u32_split)
qed

lemma unat_ucast_up:
  "LENGTH('a) \<le> LENGTH('b) \<Longrightarrow> unat (ucast (x :: 'a::len word) :: 'b::len word) = unat x"
proof -
  assume "LENGTH('a) \<le> LENGTH('b)"
  then have "(2::nat) ^ LENGTH('a) \<le> 2 ^ LENGTH('b)" by (rule power_increasing) simp
  with unsigned_less [of x, where ?'a = nat] have "unat x < 2 ^ LENGTH('b)" by linarith
  then show ?thesis by (simp add: unsigned_ucast_eq take_bit_nat_eq_self)
qed

lemma unat_lt_8: "unat (x :: u8) < 256"
  using unsigned_less [of x, where ?'a = nat] by simp

lemma unat_lt_16: "unat (x :: u16) < 65536"
  using unsigned_less [of x, where ?'a = nat] by simp

lemma unat_lt_32: "unat (x :: u32) < 4294967296"
  using unsigned_less [of x, where ?'a = nat] by simp

text \<open>Joining two disjoint halves of a word is addition.\<close>

lemma unat_or_push_bit:
  fixes a b :: "'a::len word"
  assumes "unat a < 2 ^ k" "unat a + 2 ^ k * unat b < 2 ^ LENGTH('a)"
  shows "unat (a OR push_bit k b) = unat a + 2 ^ k * unat b"
proof -
  have "\<not> bit a n" if "k \<le> n" for n
  proof -
    have "unat a < 2 ^ n" using assms(1) that by (meson le_less_trans less_le_trans less_imp_le one_le_numeral power_increasing)
    then have "\<not> bit (unat a) n" by (simp add: bit_iff_odd)
    then show ?thesis by (simp add: bit_unsigned_iff)
  qed
  then have "a AND push_bit k b = 0"
    by (intro bit_word_eqI) (auto simp: bit_and_iff bit_push_bit_iff)
  then have "a OR push_bit k b = a + push_bit k b"
    by (simp add: disjunctive_add_eq_or)
  moreover have "unat (push_bit k b) = 2 ^ k * unat b"
  proof -
    have "unat (push_bit k b) = take_bit LENGTH('a) (push_bit k (unat b))"
      by (rule unsigned_push_bit_eq)
    also have "\<dots> = 2 ^ k * unat b"
      using assms(2) by (simp only: push_bit_eq_mult take_bit_nat_eq_self mult.commute)
    finally show ?thesis .
  qed
  ultimately show ?thesis using assms(2) by (simp add: unat_word_ariths)
qed

lemma unat_rd16: "unat (rd16 b i) = unat (rd8 b i) + 256 * unat (rd8 b (i + 1))"
  unfolding rd16_def
  using unat_lt_8 [of "rd8 b i"] unat_lt_8 [of "rd8 b (i + 1)"]
    unat_or_push_bit [of "ucast (rd8 b i) :: u16" 8 "ucast (rd8 b (i + 1))"]
  by (simp add: unat_ucast_up)

lemma unat_rd32: "unat (rd32 b i) = unat (rd16 b i) + 65536 * unat (rd16 b (i + 2))"
  unfolding rd32_def
  using unat_lt_16 [of "rd16 b i"] unat_lt_16 [of "rd16 b (i + 2)"]
    unat_or_push_bit [of "ucast (rd16 b i) :: u32" 16 "ucast (rd16 b (i + 2))"]
  by (simp add: unat_ucast_up)

subsection \<open>Verdicts, hooks and error numbers\<close>

abbreviation (input) NF_DROP :: u32 where "NF_DROP \<equiv> 0"
abbreviation (input) NF_ACCEPT :: u32 where "NF_ACCEPT \<equiv> 1"
abbreviation (input) NF_STOLEN :: u32 where "NF_STOLEN \<equiv> 2"
abbreviation (input) NF_QUEUE :: u32 where "NF_QUEUE \<equiv> 3"
abbreviation (input) NF_REPEAT :: u32 where "NF_REPEAT \<equiv> 4"
abbreviation (input) NF_STOP :: u32 where "NF_STOP \<equiv> 5"

abbreviation (input) NF_IP_PRE_ROUTING :: nat where "NF_IP_PRE_ROUTING \<equiv> 0"
abbreviation (input) NF_IP_LOCAL_IN :: nat where "NF_IP_LOCAL_IN \<equiv> 1"
abbreviation (input) NF_IP_FORWARD :: nat where "NF_IP_FORWARD \<equiv> 2"
abbreviation (input) NF_IP_LOCAL_OUT :: nat where "NF_IP_LOCAL_OUT \<equiv> 3"
abbreviation (input) NF_IP_POST_ROUTING :: nat where "NF_IP_POST_ROUTING \<equiv> 4"
abbreviation (input) NF_IP_NUMHOOKS :: nat where "NF_IP_NUMHOOKS \<equiv> 5"

text \<open>Error codes are returned negated, as \<open>int\<close>.\<close>

abbreviation (input) EPERM :: int where "EPERM \<equiv> 1"
abbreviation (input) ENOENT :: int where "ENOENT \<equiv> 2"
abbreviation (input) EAGAIN :: int where "EAGAIN \<equiv> 11"
abbreviation (input) ENOMEM :: int where "ENOMEM \<equiv> 12"
abbreviation (input) EFAULT :: int where "EFAULT \<equiv> 14"
abbreviation (input) EBUSY :: int where "EBUSY \<equiv> 16"
abbreviation (input) EEXIST :: int where "EEXIST \<equiv> 17"
abbreviation (input) EINVAL :: int where "EINVAL \<equiv> 22"
abbreviation (input) ELOOP :: int where "ELOOP \<equiv> 40"
abbreviation (input) EPROTOTYPE :: int where "EPROTOTYPE \<equiv> 91"
abbreviation (input) ENOPROTOOPT :: int where "ENOPROTOOPT \<equiv> 92"
abbreviation (input) EPROTONOSUPPORT :: int where "EPROTONOSUPPORT \<equiv> 93"

abbreviation (input) HZ :: u32 where "HZ \<equiv> 100"

end
