(* ===== verification/Checksum.thy ===== *)
theory Checksum
  imports Prelude
begin

section \<open>Internet checksums\<close>

text \<open>
  The checksum primitives of the ARM port: \<open>csum_fold\<close>, \<open>csum_tcpudp_magic\<close> and
  \<open>ip_fast_csum\<close> of \<^verbatim>\<open>include/asm-arm/checksum.h\<close>, \<open>csum_partial\<close> of
  \<^verbatim>\<open>arch/arm/lib/csumpartial.S\<close> (for a 32-bit aligned buffer), and the incremental
  update that NAT and TCPMSS apply after rewriting a field
  (\<open>ip_nat_cheat_check\<close> of \<^verbatim>\<open>net/ipv4/netfilter/ip_nat_core.c\<close>).

  The lemmas relate every routine to arithmetic modulo 65535, and the main result is that
  the incremental update keeps a valid checksum valid.
\<close>

named_theorems csum_mod \<open>checksum routines modulo 65535\<close>

subsection \<open>The routines\<close>

text \<open>The ARM \<open>adcs\<close> instruction: add with carry in, giving the sum and the carry out.\<close>

definition adc :: "u32 \<Rightarrow> u32 \<Rightarrow> bool \<Rightarrow> u32 \<times> bool" where
  "adc a b c = (a + b + of_bool c, 2 ^ 32 \<le> unat a + unat b + of_bool c)"

definition csum_fold :: "u32 \<Rightarrow> u32" where
  "csum_fold sm =
     (let (s, c) = adc sm (push_bit 16 sm) False;
          s' = (if c then s + 0x10000 else s)
      in drop_bit 16 (NOT s'))"

text \<open>Little-endian loads of two and four bytes.\<close>

definition le16 :: "u8 \<Rightarrow> u8 \<Rightarrow> u32" where
  "le16 a b = ucast a OR push_bit 8 (ucast b)"

definition le32 :: "u8 \<Rightarrow> u8 \<Rightarrow> u8 \<Rightarrow> u8 \<Rightarrow> u32" where
  "le32 a b c d = le16 a b OR push_bit 16 (le16 c d)"

fun csum_halves :: "u8 list \<Rightarrow> u32 \<Rightarrow> bool \<Rightarrow> u32 \<times> bool" where
  "csum_halves (a # b # bs) s c = (let (s', c') = adc s (le16 a b) c in csum_halves bs s' c')"
| "csum_halves [a] s c = adc s (ucast a) c"
| "csum_halves [] s c = (s, c)"

fun csum_words :: "u8 list \<Rightarrow> u32 \<Rightarrow> bool \<Rightarrow> u32 \<times> bool" where
  "csum_words (a # b # d # e # bs) s c = (let (s', c') = adc s (le32 a b d e) c in csum_words bs s' c')"
| "csum_words bs s c = csum_halves bs s c"

text \<open>Buffers of less than 8 bytes go through the halfword loop, longer ones through the
  word loops; \<open>adc r0, sum, #0\<close> collects the last carry.\<close>

definition csum_partial :: "u8 list \<Rightarrow> u32 \<Rightarrow> u32" where
  "csum_partial buf sm =
     (let (s, c) = (if length buf < 8 then csum_halves buf sm False else csum_words buf sm False)
      in s + of_bool c)"

text \<open>The pseudo header: \<open>len\<close> and \<open>proto\<close> go through \<open>ntohs\<close>, as in the
  operand list of the assembly; the last \<open>adc r, r, #0\<close> drops no carry.\<close>

definition csum_tcpudp_nofold :: "u32 \<Rightarrow> u32 \<Rightarrow> u16 \<Rightarrow> u16 \<Rightarrow> u32 \<Rightarrow> u32" where
  "csum_tcpudp_nofold saddr daddr len proto sm =
     (let (s1, c1) = adc sm daddr False;
          (s2, c2) = adc s1 saddr c1;
          (s3, c3) = adc s2 (ucast (ntohs len)) c2;
          (s4, c4) = adc s3 (ucast (ntohs proto)) c3
      in s4 + of_bool c4)"

definition csum_tcpudp_magic :: "u32 \<Rightarrow> u32 \<Rightarrow> u16 \<Rightarrow> u16 \<Rightarrow> u32 \<Rightarrow> u16" where
  "csum_tcpudp_magic saddr daddr len proto sm =
     ucast (csum_fold (csum_tcpudp_nofold saddr daddr len proto sm))"

definition ip_fast_csum :: "u8 list \<Rightarrow> nat \<Rightarrow> u16" where
  "ip_fast_csum iph ihl =
     (let (s, c) = csum_words (take (4 * ihl) iph) 0 False
      in ucast (csum_fold (s + of_bool c)))"

text \<open>\<open>u_int32_t diffs[] = { oldvalinv, newval }\<close>, summed with the complement of the
  old checksum.\<close>

definition bytes32 :: "u32 \<Rightarrow> u8 list" where
  "bytes32 v = [ucast v, ucast (drop_bit 8 v), ucast (drop_bit 16 v), ucast (drop_bit 24 v)]"

definition ip_nat_cheat_check :: "u32 \<Rightarrow> u32 \<Rightarrow> u16 \<Rightarrow> u16" where
  "ip_nat_cheat_check oldvalinv newval oldcheck =
     ucast (csum_fold (csum_partial (bytes32 oldvalinv @ bytes32 newval)
                         (ucast oldcheck XOR 0xFFFF)))"

subsection \<open>Reference sum\<close>

text \<open>The sum of the 16-bit little-endian words of a buffer, a trailing odd byte counted as
  a low byte.\<close>

fun sum16 :: "u8 list \<Rightarrow> nat" where
  "sum16 (a # b # bs) = unat a + 256 * unat b + sum16 bs"
| "sum16 [a] = unat a"
| "sum16 [] = 0"

definition halves :: "u32 \<Rightarrow> nat" where
  "halves v = unat v mod 65536 + unat v div 65536"

lemma unat_le16 [csum_mod]: "unat (le16 a b) = unat a + 256 * unat b"
  unfolding le16_def
  using unat_lt_8 [of a] unat_lt_8 [of b] unat_or_push_bit [of "ucast a :: u32" 8 "ucast b"]
  by (simp add: unat_ucast_up)

lemma unat_le32 [csum_mod]:
  "unat (le32 a b c d) = unat a + 256 * unat b + 65536 * (unat c + 256 * unat d)"
  unfolding le32_def
  using unat_lt_8 [of a] unat_lt_8 [of b] unat_lt_8 [of c] unat_lt_8 [of d]
    unat_or_push_bit [of "le16 a b" 16 "le16 c d"]
  by (simp add: unat_le16)

subsection \<open>Carry chains\<close>

text \<open>A carry chain started with a clear carry never holds all ones together with a carry,
  so the final \<open>adc r, r, #0\<close> loses nothing.\<close>

definition chain_ok :: "u32 \<times> bool \<Rightarrow> bool" where
  "chain_ok p \<longleftrightarrow> (snd p \<longrightarrow> unat (fst p) < 2 ^ 32 - 1)"

definition chain_val :: "u32 \<times> bool \<Rightarrow> nat" where
  "chain_val p = unat (fst p) + of_bool (snd p)"

lemma adc_total:
  "unat (fst (adc a b c)) + 2 ^ 32 * of_bool (snd (adc a b c)) = unat a + unat b + of_bool c"
proof -
  have "unat (a + b + of_bool c) = (unat a + unat b + of_bool c) mod 2 ^ 32"
    by (cases c) (simp_all add: unat_word_ariths mod_simps)
  moreover have "unat a + unat b + of_bool c < 2 * 2 ^ 32"
    using unat_lt_32 [of a] unat_lt_32 [of b] by simp
  ultimately show ?thesis
    by (auto simp: adc_def mod_if [where m = "unat a + unat b + _"] le_mod_geq)
qed

lemma adc_chain:
  assumes "chain_ok (s, c)"
  shows "chain_ok (adc s b c)"
    and "chain_val (adc s b c) mod 65535 = (chain_val (s, c) + unat b) mod 65535"
    and "chain_val (adc s b c) = 0 \<longleftrightarrow> chain_val (s, c) = 0 \<and> b = 0"
proof -
  obtain s' c' where p: "adc s b c = (s', c')" by fastforce
  have t: "unat s' + 2 ^ 32 * of_bool c' = unat s + unat b + of_bool c"
    using adc_total [of s b c] by (simp add: p)
  show "chain_ok (adc s b c)"
    unfolding p using t assms unat_lt_32 [of s] unat_lt_32 [of b]
    by (cases c; cases c') (auto simp: chain_ok_def)
  have "chain_val (s, c) + unat b = chain_val (s', c') + (65537 * of_bool c') * 65535"
    using t by (cases c') (auto simp: chain_val_def)
  then show "chain_val (adc s b c) mod 65535 = (chain_val (s, c) + unat b) mod 65535"
    unfolding p by (simp only: mod_mult_self1)
  show "chain_val (adc s b c) = 0 \<longleftrightarrow> chain_val (s, c) = 0 \<and> b = 0"
    unfolding p using t by (auto simp: chain_val_def unat_eq_zero)
qed

lemma chain_close:
  "chain_ok (s, c) \<Longrightarrow> unat (s + of_bool c) = chain_val (s, c)"
  using unat_lt_32 [of s] by (cases c) (auto simp: chain_ok_def chain_val_def unat_word_ariths)

lemma csum_halves_chain:
  assumes "chain_ok (s, c)"
  shows "chain_ok (csum_halves bs s c)
    \<and> chain_val (csum_halves bs s c) mod 65535 = (chain_val (s, c) + sum16 bs) mod 65535
    \<and> (chain_val (csum_halves bs s c) = 0 \<longleftrightarrow> chain_val (s, c) = 0 \<and> sum16 bs = 0)"
  using assms
proof (induction bs s c rule: csum_halves.induct)
  case (1 a b bs s c)
  obtain s' c' where p: "adc s (le16 a b) c = (s', c')" by fastforce
  note st = adc_chain [OF "1.prems", of "le16 a b", unfolded p]
  note ih = "1.IH" [OF p [symmetric] refl st(1)]
  have z: "le16 a b = 0 \<longleftrightarrow> unat a = 0 \<and> unat b = 0"
    by (simp add: unat_eq_zero [symmetric] unat_le16)
  have "(chain_val (s', c') + sum16 bs) mod 65535
      = (chain_val (s, c) + unat (le16 a b) + sum16 bs) mod 65535"
    using st(2) by (metis mod_add_left_eq)
  with ih st(3) z show ?case by (auto simp: p unat_le16 add.assoc)
next
  case (2 a s c)
  have z: "(ucast a :: u32) = 0 \<longleftrightarrow> unat a = 0"
    by (simp add: unat_eq_zero [symmetric] unat_ucast_up)
  show ?case using adc_chain [OF 2, of "ucast a"] by (simp add: unat_ucast_up z)
qed simp

lemma csum_words_chain:
  assumes "chain_ok (s, c)"
  shows "chain_ok (csum_words bs s c)
    \<and> chain_val (csum_words bs s c) mod 65535 = (chain_val (s, c) + sum16 bs) mod 65535
    \<and> (chain_val (csum_words bs s c) = 0 \<longleftrightarrow> chain_val (s, c) = 0 \<and> sum16 bs = 0)"
  using assms
proof (induction bs s c rule: csum_words.induct)
  case (1 a b d e bs s c)
  obtain s' c' where p: "adc s (le32 a b d e) c = (s', c')" by fastforce
  note st = adc_chain [OF "1.prems", of "le32 a b d e", unfolded p]
  note ih = "1.IH" [OF p [symmetric] refl st(1)]
  have z: "le32 a b d e = 0 \<longleftrightarrow> unat a = 0 \<and> unat b = 0 \<and> unat d = 0 \<and> unat e = 0"
    by (auto simp: unat_eq_zero [symmetric] unat_le32)
  have e: "chain_val (s, c) + unat (le32 a b d e) + sum16 bs
      = chain_val (s, c) + sum16 (a # b # d # e # bs) + (unat d + 256 * unat e) * 65535"
    by (simp add: unat_le32)
  have "(chain_val (s', c') + sum16 bs) mod 65535
      = (chain_val (s, c) + unat (le32 a b d e) + sum16 bs) mod 65535"
    using st(2) by (metis mod_add_left_eq)
  then have "(chain_val (s', c') + sum16 bs) mod 65535
      = (chain_val (s, c) + sum16 (a # b # d # e # bs)) mod 65535"
    unfolding e by (simp only: mod_mult_self1)
  with ih st(3) z show ?case by (auto simp: p)
qed (simp_all only: csum_words.simps csum_halves_chain)

lemma chain_start: "chain_ok (s, False)" "chain_val (s, False) = unat s"
  by (simp_all add: chain_ok_def chain_val_def)

lemma csum_partial_mod [csum_mod]:
  "unat (csum_partial bs s) mod 65535 = (unat s + sum16 bs) mod 65535"
  "csum_partial bs s = 0 \<longleftrightarrow> s = 0 \<and> sum16 bs = 0"
proof -
  obtain s' c' where p: "(if length bs < 8 then csum_halves bs s False else csum_words bs s False) = (s', c')"
    by fastforce
  have "chain_ok (s', c') \<and> chain_val (s', c') mod 65535 = (unat s + sum16 bs) mod 65535
      \<and> (chain_val (s', c') = 0 \<longleftrightarrow> unat s = 0 \<and> sum16 bs = 0)"
    using csum_halves_chain [of s False bs] csum_words_chain [of s False bs] p
    by (auto simp: chain_start split: if_splits)
  then show "unat (csum_partial bs s) mod 65535 = (unat s + sum16 bs) mod 65535"
    and "csum_partial bs s = 0 \<longleftrightarrow> s = 0 \<and> sum16 bs = 0"
    unfolding csum_partial_def p by (simp_all add: chain_close flip: unat_eq_zero)
qed

subsection \<open>Folding\<close>

lemma halves_mod: "halves v mod 65535 = unat v mod 65535"
proof -
  have "unat v = halves v + 65535 * (unat v div 65536)"
    by (simp add: halves_def)
  then show ?thesis by (metis mod_mult_self2)
qed

lemma halves_bound: "halves v \<le> 2 * 65535"
  using unat_lt_32 [of v] by (simp add: halves_def)

lemma halves_eq_0: "halves v = 0 \<longleftrightarrow> v = 0"
  by (auto simp: halves_def unat_eq_zero [symmetric])

lemma divmod_65536:
  "n = 65536 * h + l \<Longrightarrow> l < 65536 \<Longrightarrow> n div 65536 = h \<and> n mod (65536 :: nat) = l"
  by auto

lemma unat_not: "unat (NOT x :: 'a::len word) = 2 ^ LENGTH('a) - 1 - unat x"
proof -
  have "NOT x = - 1 - x" by (simp add: not_eq_complement)
  moreover have "unat (- 1 - x) = unat (- 1 :: 'a word) - unat x" by (intro unat_sub) simp
  moreover have "unat (- 1 :: 'a word) = 2 ^ LENGTH('a) - 1"
    using unsigned_minus_1_eq_mask [where ?'a = nat and ?'b = 'a] by (simp add: mask_eq_exp_minus_1)
  ultimately show ?thesis by simp
qed

lemma unat_not32: "unat (NOT x :: u32) = 4294967295 - unat x"
  using unat_not [of x] by simp

lemma halves_not: "halves (NOT x) + halves x = 2 * 65535"
proof -
  let ?h = "unat x div 65536" and ?l = "unat x mod 65536"
  have b: "?h \<le> 65535" "?l \<le> 65535" using unat_lt_32 [of x] by auto
  have x: "unat x = 65536 * ?h + ?l" by simp
  have "unat (NOT x) = 65536 * (65535 - ?h) + (65535 - ?l)"
    unfolding unat_not32 using b x by linarith
  from divmod_65536 [OF this] have "unat (NOT x) div 65536 = 65535 - ?h" "unat (NOT x) mod 65536 = 65535 - ?l"
    by auto
  with b show ?thesis by (simp add: halves_def)
qed

lemma unat_push16: "unat (push_bit 16 x :: u32) = 65536 * (unat x mod 65536)"
proof -
  have "unat (push_bit 16 x) = (unat x * 65536) mod 4294967296"
    by (simp add: push_bit_eq_mult unat_word_ariths)
  also have "\<dots> = (unat x * 65536) mod (65536 * 65536)" by simp
  also have "\<dots> = 65536 * (unat x mod 65536)" by (simp only: mult_mod_left [symmetric] mult.commute)
  finally show ?thesis .
qed

lemma csum_fold_eq [csum_mod]:
  "unat (csum_fold x) = 65535 - (if halves x < 65536 then halves x else halves x - 65535)"
proof -
  let ?h = "unat x div 65536" and ?l = "unat x mod 65536"
  have b: "?h \<le> 65535" "?l \<le> 65535" using unat_lt_32 [of x] by auto
  obtain s c where p: "adc x (push_bit 16 x) False = (s, c)" by fastforce
  define s' where "s' = (if c then s + 0x10000 else s)"
  have t: "unat s + 4294967296 * of_bool c = ?l + 65536 * halves x"
    using adc_total [of x "push_bit 16 x" False] by (simp add: p unat_push16 halves_def)
  have c: "c \<longleftrightarrow> 65536 \<le> halves x"
    using t unat_lt_32 [of s] b by (cases c) auto
  have "unat s' = ?l + 65536 * (if halves x < 65536 then halves x else halves x - 65535)"
    using t c b halves_bound [of x] by (cases c) (auto simp: s'_def unat_word_ariths)
  moreover have "csum_fold x = drop_bit 16 (NOT s')"
    by (simp add: csum_fold_def p s'_def)
  then have "unat (csum_fold x) = (4294967295 - unat s') div 65536"
    by (simp only: unat_drop_bit_eq unat_not32) (simp add: drop_bit_eq_div)
  moreover have "(4294967295 - (?l + 65536 * k)) div 65536 = 65535 - k" if "k \<le> 65535" for k
  proof -
    have "4294967295 - (?l + 65536 * k) = 65536 * (65535 - k) + (65535 - ?l)"
      using that b by simp
    from divmod_65536 [OF this] show ?thesis by auto
  qed
  ultimately show ?thesis
    using halves_bound [of x] by (auto split: if_splits)
qed

lemma mod_0_le_double:
  fixes n k :: nat
  assumes "n \<le> 2 * k" "0 < k"
  shows "n mod k = 0 \<longleftrightarrow> n = 0 \<or> n = k \<or> n = 2 * k"
proof
  assume "n mod k = 0"
  then obtain q where q: "n = k * q" by (auto simp: mod_eq_0_iff_dvd elim: dvdE)
  with assms have "k * q \<le> k * 2" by simp
  with assms have "q = 0 \<or> q = 1 \<or> q = 2" by auto
  with q show "n = 0 \<or> n = k \<or> n = 2 * k" by auto
qed auto

lemma csum_fold_eq_0: "csum_fold x = 0 \<longleftrightarrow> x \<noteq> 0 \<and> unat x mod 65535 = 0"
proof -
  have "csum_fold x = 0 \<longleftrightarrow> halves x = 65535 \<or> halves x = 2 * 65535"
    using halves_bound [of x] by (auto simp: unat_eq_zero [symmetric] csum_fold_eq)
  also have "\<dots> \<longleftrightarrow> halves x \<noteq> 0 \<and> halves x mod 65535 = 0"
    using mod_0_le_double [OF halves_bound [of x]] by auto
  finally show ?thesis by (simp add: halves_mod halves_eq_0)
qed

lemma csum_fold_16: "unat (ucast (csum_fold x) :: u16) = unat (csum_fold x)"
  by (simp add: unsigned_ucast_eq take_bit_nat_eq_self csum_fold_eq)

lemma csum_fold_16_eq_0: "(ucast (csum_fold x) :: u16) = 0 \<longleftrightarrow> csum_fold x = 0"
  by (metis csum_fold_16 unat_eq_zero)

lemma csum_fold_cong: "(unat (csum_fold x) + unat x) mod 65535 = 0"
proof -
  have "(unat (csum_fold x) + halves x) mod 65535 = 0"
    using halves_bound [of x] mod_0_le_double [of "halves x" 65535] by (auto simp: csum_fold_eq)
  then show ?thesis by (metis halves_mod mod_add_right_eq)
qed

subsection \<open>The incremental update\<close>

lemma le32_bytes: "le32 (ucast v) (ucast (drop_bit 8 v)) (ucast (drop_bit 16 v)) (ucast (drop_bit 24 v)) = v"
proof (rule bit_word_eqI)
  fix n assume "n < LENGTH(32)"
  then consider "n < 8" | "8 \<le> n" "n < 16" | "16 \<le> n" "n < 24" | "24 \<le> n" "n < 32" by fastforce
  then show "bit (le32 (ucast v) (ucast (drop_bit 8 v)) (ucast (drop_bit 16 v)) (ucast (drop_bit 24 v))) n = bit v n"
    by cases (simp only: le32_def le16_def bit_iffs bit_ucast_iff, auto)+
qed

lemma sum16_bytes32: "sum16 (bytes32 v @ bs) = halves v + sum16 bs"
proof -
  let ?a = "ucast v :: u8" and ?b = "ucast (drop_bit 8 v) :: u8"
    and ?c = "ucast (drop_bit 16 v) :: u8" and ?d = "ucast (drop_bit 24 v) :: u8"
  have "unat v = unat ?a + 256 * unat ?b + 65536 * (unat ?c + 256 * unat ?d)"
    using unat_le32 [of ?a ?b ?c ?d] by (simp only: le32_bytes)
  then have "unat v = 65536 * (unat ?c + 256 * unat ?d) + (unat ?a + 256 * unat ?b)" by linarith
  from divmod_65536 [OF this] have "unat v mod 65536 = unat ?a + 256 * unat ?b" "unat v div 65536 = unat ?c + 256 * unat ?d"
    using unat_lt_8 [of ?a] unat_lt_8 [of ?b] by linarith+
  then show ?thesis by (simp add: bytes32_def halves_def)
qed

lemma sum16_Nil_bytes32: "sum16 (bytes32 v) = halves v"
  using sum16_bytes32 [of v "[]"] by simp

lemma unat_xor_ffff: "unat (ucast (c :: u16) XOR 0xFFFF :: u32) = 65535 - unat c"
proof -
  have *: "(0xFFFF :: u32) = mask 16" by (simp add: mask_eq_exp_minus_1)
  have "(ucast c XOR 0xFFFF :: u32) = ucast (NOT c)"
    unfolding * by (rule bit_word_eqI)
      (use bit_imp_le_length [of c] in \<open>auto simp: bit_not_iff bit_xor_iff bit_ucast_iff bit_mask_iff\<close>)
  then show ?thesis using unat_not [of c] by (simp add: unat_ucast_up)
qed

lemma csum_fold_neg_mod:
  assumes "(unat x + a) mod 65535 = b mod 65535"
  shows "(unat (csum_fold x) + b) mod 65535 = a mod 65535"
proof -
  have "(unat (csum_fold x) + b) mod 65535 = (unat (csum_fold x) + (unat x + a)) mod 65535"
    by (intro mod_add_cong refl assms [symmetric])
  also have "\<dots> = (unat (csum_fold x) + unat x + a) mod 65535" by (simp only: add.assoc)
  also have "\<dots> = (0 + a) mod 65535"
    using csum_fold_cong [of x] by (intro mod_add_cong) simp_all
  finally show ?thesis by simp
qed

text \<open>The new checksum \<open>c'\<close> satisfies \<open>c' + new = c + old\<close> modulo 65535, the relation of
  RFC 1624.\<close>

lemma cheat_check_mod:
  "(unat (ip_nat_cheat_check oinv n c) + halves n + halves oinv) mod 65535 = unat c mod 65535"
proof -
  let ?x = "csum_partial (bytes32 oinv @ bytes32 n) (ucast c XOR 0xFFFF)"
  have c: "unat c \<le> 65535" using unat_lt_16 [of c] by simp
  have "(unat ?x + unat c) mod 65535 = (65535 - unat c + (halves oinv + halves n) + unat c) mod 65535"
    using csum_partial_mod(1) [of "bytes32 oinv @ bytes32 n" "ucast c XOR 0xFFFF"]
    by (metis mod_add_left_eq unat_xor_ffff sum16_bytes32 sum16_Nil_bytes32)
  also have "\<dots> = (halves n + halves oinv) mod 65535" using c by (simp add: add.commute)
  finally have "(unat (csum_fold ?x) + (halves n + halves oinv)) mod 65535 = unat c mod 65535"
    by (rule csum_fold_neg_mod)
  then show ?thesis by (simp add: ip_nat_cheat_check_def csum_fold_16 add.assoc)
qed

lemma cheat_check_32:
  "(unat (ip_nat_cheat_check (NOT old) new c) + halves new) mod 65535 = (unat c + halves old) mod 65535"
proof -
  have "(unat (ip_nat_cheat_check (NOT old) new c) + halves new + halves (NOT old) + halves old) mod 65535
      = (unat c + halves old) mod 65535"
    by (metis cheat_check_mod mod_add_left_eq)
  moreover have "a + halves new + halves (NOT old) + halves old = a + halves new + 65535 * 2" for a
    using halves_not [of old] by simp
  ultimately show ?thesis by (simp only: mod_mult_self2)
qed

lemma halves_ucast: "halves (ucast (v :: u16)) = unat v"
  using unat_lt_16 [of v] by (simp add: halves_def unat_ucast_up)

lemma cheat_check_16:
  fixes old new :: u16
  shows "(unat (ip_nat_cheat_check (ucast old XOR 0xFFFF) (ucast new) c) + unat new) mod 65535
    = (unat c + unat old) mod 65535"
proof -
  have h: "halves (ucast old XOR 0xFFFF) = 65535 - unat old"
    using unat_lt_16 [of old] by (simp add: halves_def unat_xor_ffff)
  have "(unat (ip_nat_cheat_check (ucast old XOR 0xFFFF) (ucast new) c) + unat new
        + (65535 - unat old) + unat old) mod 65535 = (unat c + unat old) mod 65535"
    using cheat_check_mod [of "ucast old XOR 0xFFFF" "ucast new" c] unfolding h halves_ucast
    by (intro mod_add_cong) simp_all
  moreover have "a + (65535 - unat old) + unat old = a + 65535" for a
    using unat_lt_16 [of old] by simp
  ultimately show ?thesis by (simp only: mod_add_self2)
qed

subsection \<open>Writes into a checksummed buffer\<close>

lemma mod_cancel_right:
  fixes a b c d m :: nat
  assumes "a + c = b + d" "d mod m = c mod m"
  shows "a mod m = b mod m"
proof -
  have "(a + c) mod m = (b + c) mod m"
    using assms by (metis mod_add_right_eq)
  then show ?thesis by (auto simp: nat_mod_eq_iff)
qed

lemma sum16_drop2: "sum16 b = (if b = [] then 0 else unat (rd16 b 0) + sum16 (drop 2 b))"
  by (cases b rule: sum16.cases) (simp_all add: unat_rd16 rd8_def)

lemma unat_u16_bytes: "unat (v :: u16) = unat (ucast v :: u8) + 256 * unat (ucast (drop_bit 8 v) :: u8)"
proof -
  have "unat (rd16 (wr16 [0, 0] 0 v) 0) = unat (rd8 (wr16 [0, 0] 0 v) 0) + 256 * unat (rd8 (wr16 [0, 0] 0 v) 1)"
    using unat_rd16 [of _ 0] by simp
  then show ?thesis
    by (simp only: rd16_wr16 list.size) (simp add: rd16_wr16 wr16_def rd8_wr8)
qed

lemma sum16_wr16:
  "even i \<Longrightarrow> i + 1 < length b \<Longrightarrow> sum16 (wr16 b i v) + unat (rd16 b i) = sum16 b + unat v"
proof (induction b arbitrary: i rule: sum16.induct)
  case (1 x y b)
  have v: "unat v = unat (ucast v :: u8) + 256 * unat (ucast (drop_bit 8 v) :: u8)"
    by (rule unat_u16_bytes)
  show ?case
  proof (cases i)
    case 0
    then show ?thesis using v by (simp add: wr16_def wr8_def unat_rd16 rd8_def)
  next
    case (Suc j)
    with "1.prems" obtain k where k: "i = Suc (Suc k)" "even k" by (cases j) auto
    with "1.prems" "1.IH" [of k] show ?thesis
      by (simp add: wr16_def wr8_def rd16_def rd8_def)
  qed
qed simp_all

lemma sum16_wr32:
  assumes "even i" "i + 3 < length b"
  shows "sum16 (wr32 b i v) + halves (rd32 b i) = sum16 b + halves v"
proof -
  have s: "unat v = 65536 * unat (ucast (drop_bit 16 v) :: u16) + unat (ucast v :: u16)"
    using unat_rd32 [of "wr32 [0, 0, 0, 0] 0 v" 0]
    by (simp add: rd32_wr32) (simp add: wr32_def rd16_wr16 rd16_wr16_other)
  have v: "halves v = unat (ucast (drop_bit 16 v) :: u16) + unat (ucast v :: u16)"
    using divmod_65536 [OF s unat_lt_16] by (simp add: halves_def)
  have "unat (rd32 b i) = 65536 * unat (rd16 b (i + 2)) + unat (rd16 b i)"
    by (simp add: unat_rd32)
  then have r: "halves (rd32 b i) = unat (rd16 b (i + 2)) + unat (rd16 b i)"
    using divmod_65536 [OF _ unat_lt_16] by (simp add: halves_def)
  show ?thesis
    using assms sum16_wr16 [of i b "ucast v"]
      sum16_wr16 [of "i + 2" "wr16 b i (ucast v)" "ucast (drop_bit 16 v)"]
    by (simp add: v r wr32_def rd16_wr16_other)
qed

text \<open>A buffer that carries its own checksum is valid when its sum folds to zero, which is
  the test of the receivers (\<open>csum_fold\<close> of the whole, \<open>ip_fast_csum\<close>).\<close>

definition csum_valid :: "u8 list \<Rightarrow> u32 \<Rightarrow> bool" where
  "csum_valid b start \<longleftrightarrow> csum_fold (csum_partial b start) = 0"

lemma csum_valid_iff:
  "csum_valid b st \<longleftrightarrow> (st \<noteq> 0 \<or> sum16 b \<noteq> 0) \<and> (unat st + sum16 b) mod 65535 = 0"
  by (auto simp: csum_valid_def csum_fold_eq_0 csum_partial_mod)

lemma sum16_eq_0: "sum16 b = 0 \<longleftrightarrow> (\<forall>x \<in> set b. x = 0)"
  by (induction b rule: sum16.induct) (auto simp: unat_eq_zero)

lemma ip_fast_csum_valid: "ip_fast_csum b ihl = 0 \<longleftrightarrow> csum_valid (take (4 * ihl) b) 0"
proof -
  obtain s c where p: "csum_words (take (4 * ihl) b) 0 False = (s, c)" by fastforce
  have "unat (s + of_bool c) mod 65535 = sum16 (take (4 * ihl) b) mod 65535"
    and "s + of_bool c = 0 \<longleftrightarrow> sum16 (take (4 * ihl) b) = 0"
    using csum_words_chain [of 0 False "take (4 * ihl) b"]
    by (auto simp: p chain_start chain_close simp flip: unat_eq_zero)
  then show ?thesis
    by (simp add: ip_fast_csum_def p csum_fold_16_eq_0 csum_fold_eq_0 csum_valid_iff)
qed

lemma sum16_cheat_32:
  assumes "even i" "i + 3 < length b" "even k" "k + 1 < length b" "k + 1 < i \<or> i + 3 < k"
  shows "sum16 (wr16 (wr32 b i new) k (ip_nat_cheat_check (NOT (rd32 b i)) new (rd16 b k))) mod 65535
    = sum16 b mod 65535" (is "sum16 ?b' mod _ = _")
proof -
  let ?c = "ip_nat_cheat_check (NOT (rd32 b i)) new (rd16 b k)" and ?o = "rd32 b i"
  have "sum16 ?b' + unat (rd16 b k) + halves ?o = sum16 b + halves new + unat ?c"
    using assms sum16_wr16 [of k "wr32 b i new" ?c] sum16_wr32 [of i b new]
    by (simp add: rd16_wr32_other)
  then have "sum16 ?b' + (unat (rd16 b k) + halves ?o) = sum16 b + (unat ?c + halves new)" by simp
  moreover have "(unat ?c + halves new) mod 65535 = (unat (rd16 b k) + halves ?o) mod 65535"
    by (rule cheat_check_32)
  ultimately show ?thesis by (rule mod_cancel_right)
qed

lemma sum16_cheat_16:
  assumes "even i" "i + 1 < length b" "even k" "k + 1 < length b" "k + 1 < i \<or> i + 1 < k"
  shows "sum16 (wr16 (wr16 b i new) k
      (ip_nat_cheat_check (ucast (rd16 b i) XOR 0xFFFF) (ucast new) (rd16 b k))) mod 65535
    = sum16 b mod 65535" (is "sum16 ?b' mod _ = _")
proof -
  let ?c = "ip_nat_cheat_check (ucast (rd16 b i) XOR 0xFFFF) (ucast new) (rd16 b k)"
    and ?o = "rd16 b i"
  have "sum16 ?b' + unat (rd16 b k) + unat ?o = sum16 b + unat new + unat ?c"
    using assms sum16_wr16 [of k "wr16 b i new" ?c] sum16_wr16 [of i b new]
    by (simp add: rd16_wr16_other)
  then have "sum16 ?b' + (unat (rd16 b k) + unat ?o) = sum16 b + (unat ?c + unat new)" by simp
  moreover have "(unat ?c + unat new) mod 65535 = (unat (rd16 b k) + unat ?o) mod 65535"
    by (rule cheat_check_16)
  ultimately show ?thesis by (rule mod_cancel_right)
qed

end
