(* ===== verification/Skbuff.thy ===== *)
theory Skbuff
  imports Checksum
begin

section \<open>Socket buffers and protocol headers\<close>

text \<open>
  The part of \<open>struct sk_buff\<close> (\<^verbatim>\<open>include/linux/skbuff.h\<close>) the packet path reads and
  writes, for a linear buffer whose data starts at the IP header, and the fields of the IP,
  TCP, UDP and ICMP headers as reads at their byte offsets. \<open>cloned\<close> says that
  \<open>skb_shared || skb_cloned\<close>; \<open>copy_fails\<close> is the outcome of the allocation that
  \<open>skb_copy\<close> makes, an input of the model.
\<close>

record sk_buff =
  skb_data :: "u8 list"
  ip_summed :: nat
  csum :: u32
  nfct :: "nat option"
  nfctinfo :: nat
  nfmark :: u32
  dst_pmtu :: "u32 option"
  tailroom :: nat
  cloned :: bool
  copy_fails :: bool

abbreviation (input) CHECKSUM_NONE :: nat where "CHECKSUM_NONE \<equiv> 0"
abbreviation (input) CHECKSUM_HW :: nat where "CHECKSUM_HW \<equiv> 1"
abbreviation (input) CHECKSUM_UNNECESSARY :: nat where "CHECKSUM_UNNECESSARY \<equiv> 2"

abbreviation skb_len :: "sk_buff \<Rightarrow> nat" where
  "skb_len skb \<equiv> length (skb_data skb)"

text \<open>\<open>skb_copy_bits\<close> fails exactly when the range is not inside the packet.\<close>

definition skb_header_pointer :: "sk_buff \<Rightarrow> nat \<Rightarrow> nat \<Rightarrow> u8 list option" where
  "skb_header_pointer skb offset len =
     (if offset + len \<le> skb_len skb then Some (take len (drop offset (skb_data skb))) else None)"

definition skb_make_writable :: "sk_buff \<Rightarrow> nat \<Rightarrow> sk_buff option" where
  "skb_make_writable skb writable_len =
     (if skb_len skb < writable_len then None
      else if cloned skb
      then (if copy_fails skb then None else Some (skb\<lparr>cloned := False\<rparr>))
      else Some skb)"

subsection \<open>Header fields\<close>

text \<open>\<open>struct iphdr\<close>, little-endian bitfields: \<open>ihl\<close> is the low nibble of byte 0.\<close>

definition iph_ihl :: "u8 list \<Rightarrow> nat" where "iph_ihl b = unat (rd8 b 0 AND 0x0f)"
definition iph_tos :: "u8 list \<Rightarrow> u8" where "iph_tos b = rd8 b 1"
definition iph_tot_len :: "u8 list \<Rightarrow> u16" where "iph_tot_len b = rd16 b 2"
definition iph_id :: "u8 list \<Rightarrow> u16" where "iph_id b = rd16 b 4"
definition iph_frag_off :: "u8 list \<Rightarrow> u16" where "iph_frag_off b = rd16 b 6"
definition iph_ttl :: "u8 list \<Rightarrow> u8" where "iph_ttl b = rd8 b 8"
definition iph_protocol :: "u8 list \<Rightarrow> u8" where "iph_protocol b = rd8 b 9"
definition iph_check :: "u8 list \<Rightarrow> u16" where "iph_check b = rd16 b 10"
definition iph_saddr :: "u8 list \<Rightarrow> u32" where "iph_saddr b = rd32 b 12"
definition iph_daddr :: "u8 list \<Rightarrow> u32" where "iph_daddr b = rd32 b 16"

lemmas iph_defs = iph_ihl_def iph_tos_def iph_tot_len_def iph_id_def iph_frag_off_def
  iph_ttl_def iph_protocol_def iph_check_def iph_saddr_def iph_daddr_def

text \<open>\<open>struct tcphdr\<close>: \<open>doff\<close> is the high nibble of byte 12, the flags are byte 13.\<close>

definition tcph_source :: "u8 list \<Rightarrow> u16" where "tcph_source h = rd16 h 0"
definition tcph_dest :: "u8 list \<Rightarrow> u16" where "tcph_dest h = rd16 h 2"
definition tcph_seq :: "u8 list \<Rightarrow> u32" where "tcph_seq h = rd32 h 4"
definition tcph_ack_seq :: "u8 list \<Rightarrow> u32" where "tcph_ack_seq h = rd32 h 8"
definition tcph_doff :: "u8 list \<Rightarrow> nat" where "tcph_doff h = unat (drop_bit 4 (rd8 h 12))"
definition tcph_fin :: "u8 list \<Rightarrow> bool" where "tcph_fin h = bit (rd8 h 13) 0"
definition tcph_syn :: "u8 list \<Rightarrow> bool" where "tcph_syn h = bit (rd8 h 13) 1"
definition tcph_rst :: "u8 list \<Rightarrow> bool" where "tcph_rst h = bit (rd8 h 13) 2"
definition tcph_ack :: "u8 list \<Rightarrow> bool" where "tcph_ack h = bit (rd8 h 13) 4"
definition tcph_window :: "u8 list \<Rightarrow> u16" where "tcph_window h = rd16 h 14"
definition tcph_check :: "u8 list \<Rightarrow> u16" where "tcph_check h = rd16 h 16"

lemmas tcph_defs = tcph_source_def tcph_dest_def tcph_seq_def tcph_ack_seq_def tcph_doff_def
  tcph_fin_def tcph_syn_def tcph_rst_def tcph_ack_def tcph_window_def tcph_check_def

text \<open>\<open>struct udphdr\<close> and \<open>struct icmphdr\<close>.\<close>

definition udph_source :: "u8 list \<Rightarrow> u16" where "udph_source h = rd16 h 0"
definition udph_dest :: "u8 list \<Rightarrow> u16" where "udph_dest h = rd16 h 2"
definition udph_len :: "u8 list \<Rightarrow> u16" where "udph_len h = rd16 h 4"
definition udph_check :: "u8 list \<Rightarrow> u16" where "udph_check h = rd16 h 6"

definition icmph_type :: "u8 list \<Rightarrow> u8" where "icmph_type h = rd8 h 0"
definition icmph_code :: "u8 list \<Rightarrow> u8" where "icmph_code h = rd8 h 1"
definition icmph_checksum :: "u8 list \<Rightarrow> u16" where "icmph_checksum h = rd16 h 2"
definition icmph_id :: "u8 list \<Rightarrow> u16" where "icmph_id h = rd16 h 4"

abbreviation (input) IPPROTO_ICMP :: u8 where "IPPROTO_ICMP \<equiv> 1"
abbreviation (input) IPPROTO_TCP :: u8 where "IPPROTO_TCP \<equiv> 6"
abbreviation (input) IPPROTO_UDP :: u8 where "IPPROTO_UDP \<equiv> 17"

lemma skb_header_pointer_length:
  "skb_header_pointer skb off len = Some h \<Longrightarrow> length h = len"
  by (auto simp: skb_header_pointer_def split: if_splits)

lemma skb_header_pointer_rd8:
  "skb_header_pointer skb off len = Some h \<Longrightarrow> i < len \<Longrightarrow> rd8 h i = rd8 (skb_data skb) (off + i)"
  by (auto simp: skb_header_pointer_def rd8_def split: if_splits)

lemma skb_header_pointer_rd16:
  "skb_header_pointer skb off len = Some h \<Longrightarrow> i + 1 < len \<Longrightarrow> rd16 h i = rd16 (skb_data skb) (off + i)"
  by (simp add: rd16_def skb_header_pointer_rd8)

lemma skb_header_pointer_rd32:
  "skb_header_pointer skb off len = Some h \<Longrightarrow> i + 3 < len \<Longrightarrow> rd32 h i = rd32 (skb_data skb) (off + i)"
  by (simp add: rd32_def skb_header_pointer_rd16)

lemma skb_make_writable_data:
  "skb_make_writable skb n = Some skb' \<Longrightarrow>
     n \<le> skb_len skb \<and> skb_data skb' = skb_data skb \<and> nfct skb' = nfct skb
     \<and> nfctinfo skb' = nfctinfo skb \<and> nfmark skb' = nfmark skb \<and> csum skb' = csum skb
     \<and> ip_summed skb' = ip_summed skb \<and> \<not> cloned skb'"
  by (auto simp: skb_make_writable_def split: if_splits)

lemma tcph_doff_le: "tcph_doff h \<le> 15"
proof -
  have "unat (rd8 h 12) div 16 \<le> 15" using unat_lt_8 [of "rd8 h 12"] by linarith
  then show ?thesis by (simp only: tcph_doff_def unat_drop_bit_eq) (simp add: drop_bit_eq_div)
qed

lemma iph_ihl_le: "iph_ihl b \<le> 15"
proof -
  have "rd8 b 0 AND 0x0f \<le> 0x0f" by (rule word_and_le1)
  then show ?thesis by (simp add: iph_ihl_def word_le_nat_alt)
qed

end
