(* ===== verification/Ip_Tables.thy ===== *)
theory Ip_Tables
  imports Skbuff
begin

section \<open>The rule table and its traversal\<close>

text \<open>
  The data structures of \<^verbatim>\<open>include/linux/netfilter_ipv4/ip_tables.h\<close> and
  \<^verbatim>\<open>include/linux/netfilter/x_tables.h\<close>, and the packet-time half of
  \<^verbatim>\<open>net/ipv4/netfilter/ip_tables.c\<close>: \<open>ip_packet_match\<close>, the match iteration and
  \<open>ipt_do_table\<close>.

  A table blob is a finite map from byte offsets (\<open>unsigned int\<close>) to the entry that starts
  there. A dereference at an offset where no entry starts is the value \<open>Fault\<close>.
  \<open>ipt_do_table\<close> loops until it reaches a verdict; it is a \<open>partial_function\<close>, so that a
  loop that does not end is \<open>None\<close>. The return stack is threaded through the \<open>comefrom\<close>
  fields of the entries, as in the source.

  \<open>'w\<close> is the state that matches and targets may read and change (connection tracking,
  rate limits), \<open>'m\<close> and \<open>'t\<close> are the match and target data.
\<close>

named_theorems tbl_simps \<open>table updates leave the shape of the entries alone\<close>

type_synonym netdev = "u8 list"

subsection \<open>Structures\<close>

record ipt_ip =
  src :: u32
  dst :: u32
  smsk :: u32
  dmsk :: u32
  iniface :: "u8 list"
  outiface :: "u8 list"
  iniface_mask :: "u8 list"
  outiface_mask :: "u8 list"
  proto :: u16
  flags :: u8
  invflags :: u8

abbreviation (input) IPT_F_FRAG :: u8 where "IPT_F_FRAG \<equiv> 0x01"
abbreviation (input) IPT_F_GOTO :: u8 where "IPT_F_GOTO \<equiv> 0x02"
abbreviation (input) IPT_F_MASK :: u8 where "IPT_F_MASK \<equiv> 0x03"
abbreviation (input) IPT_INV_VIA_IN :: u8 where "IPT_INV_VIA_IN \<equiv> 0x01"
abbreviation (input) IPT_INV_VIA_OUT :: u8 where "IPT_INV_VIA_OUT \<equiv> 0x02"
abbreviation (input) IPT_INV_SRCIP :: u8 where "IPT_INV_SRCIP \<equiv> 0x08"
abbreviation (input) IPT_INV_DSTIP :: u8 where "IPT_INV_DSTIP \<equiv> 0x10"
abbreviation (input) IPT_INV_FRAG :: u8 where "IPT_INV_FRAG \<equiv> 0x20"
abbreviation (input) IPT_INV_PROTO :: u8 where "IPT_INV_PROTO \<equiv> 0x40"
abbreviation (input) IPT_INV_MASK :: u8 where "IPT_INV_MASK \<equiv> 0x7F"

abbreviation (input) XT_CONTINUE :: u32 where "XT_CONTINUE \<equiv> 0xFFFFFFFF"
abbreviation (input) IPT_RETURN :: u32 where "IPT_RETURN \<equiv> - 5"
abbreviation (input) NF_MAX_VERDICT :: int where "NF_MAX_VERDICT \<equiv> 5"

record xt_counters =
  pcnt :: u64
  bcnt :: u64

text \<open>\<open>struct xt_match\<close>: the match function gets the packet, the devices, the match data,
  the fragment offset and the offset of the transport header, and returns its result, whether
  it set \<open>*hotdrop\<close>, and the new state. \<open>xm_get\<close> and \<open>xm_put\<close> are
  \<open>try_module_get(m->me)\<close> and \<open>module_put(m->me)\<close>.\<close>

record ('w, 'm) xt_match =
  xm_name :: string
  xm_revision :: u8
  xm_match :: "'w \<Rightarrow> sk_buff \<Rightarrow> netdev option \<Rightarrow> netdev option \<Rightarrow> 'm \<Rightarrow> u16 \<Rightarrow> nat
    \<Rightarrow> bool \<times> bool \<times> 'w"
  xm_checkentry :: "(string \<Rightarrow> ipt_ip \<Rightarrow> 'm \<Rightarrow> u32 \<Rightarrow> u32 \<Rightarrow> 'w \<Rightarrow> bool \<times> 'm \<times> 'w) option"
  xm_destroy :: "('m \<Rightarrow> u32 \<Rightarrow> 'w \<Rightarrow> 'w) option"
  xm_get :: "'w \<Rightarrow> 'w option"
  xm_put :: "'w \<Rightarrow> 'w"

text \<open>The union \<open>u\<close> of an entry match: as user space fills it, or as the kernel uses it.\<close>

datatype ('w, 'm) match_u = MUser string u8 | MKernel "('w, 'm) xt_match"

record ('w, 'm) ipt_entry_match =
  match_size :: u16
  match_u :: "('w, 'm) match_u"
  match_data :: 'm

text \<open>\<open>struct xt_target\<close>: a \<open>NULL\<close> target function marks the standard target.\<close>

record ('w, 't) xt_target =
  xt_name :: string
  xt_revision :: u8
  xt_target :: "('w \<Rightarrow> sk_buff \<Rightarrow> netdev option \<Rightarrow> netdev option \<Rightarrow> nat \<Rightarrow> 't
    \<Rightarrow> u32 \<times> sk_buff \<times> 'w) option"
  xt_checkentry :: "(string \<Rightarrow> ipt_ip \<Rightarrow> 't \<Rightarrow> u32 \<Rightarrow> u32 \<Rightarrow> 'w \<Rightarrow> bool \<times> 't \<times> 'w) option"
  xt_destroy :: "('t \<Rightarrow> u32 \<Rightarrow> 'w \<Rightarrow> 'w) option"
  xt_get :: "'w \<Rightarrow> 'w option"
  xt_put :: "'w \<Rightarrow> 'w"

datatype ('w, 't) target_u = TUser string u8 | TKernel "('w, 't) xt_target"

text \<open>\<open>struct ipt_entry_target\<close>, with the \<open>verdict\<close> of \<open>struct ipt_standard_target\<close>, an
  \<open>int\<close> kept as its 32 bits.\<close>

record ('w, 't) ipt_entry_target =
  target_size :: u16
  target_u :: "('w, 't) target_u"
  target_data :: 't
  verdict :: u32

record ('w, 'm, 't) ipt_entry =
  ip :: ipt_ip
  target_offset :: u16
  next_offset :: u16
  comefrom :: u32
  counters :: xt_counters
  matches :: "('w, 'm) ipt_entry_match list"
  target :: "('w, 't) ipt_entry_target"

type_synonym ('w, 'm, 't) blob = "u32 \<rightharpoonup> ('w, 'm, 't) ipt_entry"

record ('w, 'm, 't) xt_table_info =
  size :: u32
  number :: u32
  initial_entries :: u32
  hook_entry :: "nat \<Rightarrow> u32"
  underflow :: "nat \<Rightarrow> u32"
  entries :: "('w, 'm, 't) blob"

abbreviation (input) sizeof_ipt_entry :: nat where "sizeof_ipt_entry \<equiv> 112"
abbreviation (input) sizeof_ipt_entry_match :: nat where "sizeof_ipt_entry_match \<equiv> 32"
abbreviation (input) sizeof_ipt_entry_target :: nat where "sizeof_ipt_entry_target \<equiv> 32"
abbreviation (input) sizeof_ipt_standard_target :: nat where "sizeof_ipt_standard_target \<equiv> 36"

text \<open>The name in the union; the kernel form stands for the registered name, which is what
  \<open>copy_entries_to_user\<close> puts back.\<close>

fun match_name :: "('w, 'm) match_u \<Rightarrow> string" where
  "match_name (MUser n r) = n"
| "match_name (MKernel m) = xm_name m"

fun target_name :: "('w, 't) target_u \<Rightarrow> string" where
  "target_name (TUser n r) = n"
| "target_name (TKernel t) = xt_name t"

definition next_entry :: "u32 \<Rightarrow> ('w, 'm, 't) ipt_entry \<Rightarrow> u32" where
  "next_entry pos e = pos + ucast (next_offset e)"

subsection \<open>Matching one rule\<close>

definition fwinv :: "ipt_ip \<Rightarrow> bool \<Rightarrow> u8 \<Rightarrow> bool" where
  "fwinv ipinfo b invflg \<longleftrightarrow> b \<noteq> (invflags ipinfo AND invflg \<noteq> 0)"

text \<open>The interface comparison, four machine words at a time.\<close>

definition ifname_cmp :: "u8 list \<Rightarrow> u8 list \<Rightarrow> u8 list \<Rightarrow> u32" where
  "ifname_cmp dev name msk =
     fold (\<lambda>i ret. ret OR ((rd32 dev (4 * i) XOR rd32 name (4 * i)) AND rd32 msk (4 * i)))
       [0..<4] 0"

definition ip_packet_match :: "u8 list \<Rightarrow> netdev \<Rightarrow> netdev \<Rightarrow> ipt_ip \<Rightarrow> bool \<Rightarrow> bool" where
  "ip_packet_match iph indev outdev ipinfo isfrag =
     (if fwinv ipinfo (iph_saddr iph AND smsk ipinfo \<noteq> src ipinfo) IPT_INV_SRCIP
         \<or> fwinv ipinfo (iph_daddr iph AND dmsk ipinfo \<noteq> dst ipinfo) IPT_INV_DSTIP
      then False
      else if fwinv ipinfo (ifname_cmp indev (iniface ipinfo) (iniface_mask ipinfo) \<noteq> 0) IPT_INV_VIA_IN
      then False
      else if fwinv ipinfo (ifname_cmp outdev (outiface ipinfo) (outiface_mask ipinfo) \<noteq> 0) IPT_INV_VIA_OUT
      then False
      else if proto ipinfo \<noteq> 0 \<and> fwinv ipinfo (ucast (iph_protocol iph) \<noteq> proto ipinfo) IPT_INV_PROTO
      then False
      else if fwinv ipinfo (flags ipinfo AND IPT_F_FRAG \<noteq> 0 \<and> \<not> isfrag) IPT_INV_FRAG
      then False
      else True)"

text \<open>\<open>IPT_MATCH_ITERATE(e, fn, ...)\<close>: from \<open>sizeof(struct ipt_entry)\<close> to
  \<open>target_offset\<close> in steps of \<open>match_size\<close>, until \<open>fn\<close> returns something other than 0.
  \<open>'s\<close> is whatever \<open>fn\<close> changes through its extra arguments.\<close>

fun match_iterate :: "(('w, 'm) ipt_entry_match \<Rightarrow> 's \<Rightarrow> int \<times> ('w, 'm) ipt_entry_match \<times> 's)
    \<Rightarrow> nat \<Rightarrow> nat \<Rightarrow> ('w, 'm) ipt_entry_match list \<Rightarrow> 's
    \<Rightarrow> int \<times> ('w, 'm) ipt_entry_match list \<times> 's" where
  "match_iterate fn i toff [] s = (0, [], s)"
| "match_iterate fn i toff (m # ms) s =
     (if i < toff then
        (case fn m s of
           (r, m', s') \<Rightarrow>
             if r \<noteq> 0 then (r, m' # ms, s')
             else (case match_iterate fn (i + unat (match_size m')) toff ms s' of
                     (r', ms', s'') \<Rightarrow> (r', m' # ms', s'')))
      else (0, m # ms, s))"

text \<open>\<open>do_match\<close> stops the iteration when the match function says no. A match in user form
  has no function to call; \<open>check_match\<close> has replaced them all.\<close>

definition do_match :: "sk_buff \<Rightarrow> netdev option \<Rightarrow> netdev option \<Rightarrow> u16
    \<Rightarrow> ('w, 'm) ipt_entry_match \<Rightarrow> bool \<times> 'w \<Rightarrow> int \<times> ('w, 'm) ipt_entry_match \<times> bool \<times> 'w" where
  "do_match skb inn out offset m s =
     (case match_u m of
        MKernel k \<Rightarrow>
          (let (r, hotd, w) = xm_match k (snd s) skb inn out (match_data m) offset
                                (iph_ihl (skb_data skb) * 4)
           in (if \<not> r then 1 else 0, m, fst s \<or> hotd, w))
      | MUser n r \<Rightarrow> (1, m, s))"

definition add_counter :: "xt_counters \<Rightarrow> u64 \<Rightarrow> u64 \<Rightarrow> xt_counters" where
  "add_counter c b p = c\<lparr>bcnt := bcnt c + b, pcnt := pcnt c + p\<rparr>"

definition ipt_error :: "'w \<Rightarrow> sk_buff \<Rightarrow> netdev option \<Rightarrow> netdev option \<Rightarrow> nat \<Rightarrow> 't
    \<Rightarrow> u32 \<times> sk_buff \<times> 'w" where
  "ipt_error w skb inn out hooknum targinfo = (NF_DROP, skb, w)"

subsection \<open>The traversal\<close>

datatype 'a exec = Fault | Ret 'a

definition nulldevname :: netdev where
  "nulldevname = replicate 16 0"

definition devname :: "netdev option \<Rightarrow> netdev" where
  "devname d = (case d of None \<Rightarrow> nulldevname | Some n \<Rightarrow> n)"

text \<open>What one pass of the loop body does: fault, leave the loop with a verdict, or go
  round again at another entry. The loop condition tests \<open>hotdrop\<close> after every pass.\<close>

record ('w, 'm, 't) trav =
  tr_blob :: "('w, 'm, 't) blob"
  tr_skb :: sk_buff
  tr_hotdrop :: bool
  tr_world :: 'w

datatype ('w, 'm, 't) pass =
    PFault
  | PBreak u32 "('w, 'm, 't) trav"
  | PGo u32 u32 "('w, 'm, 't) trav"

definition do_table_pass :: "nat \<Rightarrow> netdev option \<Rightarrow> netdev option \<Rightarrow> u16 \<Rightarrow> u32 \<Rightarrow> u32
    \<Rightarrow> ('w, 'm, 't) trav \<Rightarrow> ('w, 'm, 't) pass" where
  "do_table_pass hook inn out offset e back s =
     (case tr_blob s e of
        None \<Rightarrow> PFault
      | Some ent \<Rightarrow>
        if ip_packet_match (skb_data (tr_skb s)) (devname inn) (devname out) (ip ent) (offset \<noteq> 0)
        then
          (case match_iterate (do_match (tr_skb s) inn out offset) sizeof_ipt_entry
                  (unat (target_offset ent)) (matches ent) (tr_hotdrop s, tr_world s) of
             (r, ms, hotd, w) \<Rightarrow>
               if r \<noteq> 0 then PGo (next_entry e ent) back (s\<lparr>tr_hotdrop := hotd, tr_world := w\<rparr>)
               else (let ent' = ent\<lparr>counters := add_counter (counters ent)
                                 (ucast (ntohs (iph_tot_len (skb_data (tr_skb s))))) 1\<rparr>;
                    b = (tr_blob s)(e \<mapsto> ent');
                    s' = s\<lparr>tr_hotdrop := hotd, tr_world := w, tr_blob := b\<rparr>
                in (case target_u (target ent) of
                      TUser n r \<Rightarrow> PFault
                    | TKernel t \<Rightarrow>
                      (case xt_target t of
                         None \<Rightarrow>
                           (let v = verdict (target ent) in
                            if sint v < 0 then
                              if v \<noteq> IPT_RETURN then PBreak (- v - 1) s'
                              else (case b back of
                                      None \<Rightarrow> PFault
                                    | Some be \<Rightarrow> PGo back (comefrom be) s')
                            else if v \<noteq> next_entry e ent \<and> flags (ip ent) AND IPT_F_GOTO = 0 then
                              (case b (next_entry e ent) of
                                 None \<Rightarrow> PFault
                               | Some ne \<Rightarrow>
                                   PGo v (next_entry e ent)
                                     (s'\<lparr>tr_blob := b(next_entry e ent \<mapsto> ne\<lparr>comefrom := back\<rparr>)\<rparr>))
                            else PGo v back s')
                       | Some f \<Rightarrow>
                           (case f w (tr_skb s) inn out hook (target_data (target ent)) of
                              (vd, skb', w') \<Rightarrow>
                                (let s'' = s'\<lparr>tr_skb := skb', tr_world := w'\<rparr> in
                                 if vd = XT_CONTINUE then PGo (next_entry e ent) back s''
                                 else PBreak vd s''))))))
        else PGo (next_entry e ent) back s)"

partial_function (option) do_table_loop :: "nat \<Rightarrow> netdev option \<Rightarrow> netdev option \<Rightarrow> u16 \<Rightarrow> u32
    \<Rightarrow> u32 \<Rightarrow> ('w, 'm, 't) trav \<Rightarrow> (u32 \<times> ('w, 'm, 't) trav) exec option" where
  "do_table_loop hook inn out offset e back s =
     (case do_table_pass hook inn out offset e back s of
        PFault \<Rightarrow> Some Fault
      | PBreak vd s' \<Rightarrow> Some (Ret (if tr_hotdrop s' then NF_DROP else vd, s'))
      | PGo e' back' s' \<Rightarrow>
          if tr_hotdrop s' then Some (Ret (NF_DROP, s'))
          else do_table_loop hook inn out offset e' back' s')"

definition ipt_do_table :: "sk_buff \<Rightarrow> nat \<Rightarrow> netdev option \<Rightarrow> netdev option
    \<Rightarrow> ('w, 'm, 't) xt_table_info \<Rightarrow> 'w \<Rightarrow> (u32 \<times> ('w, 'm, 't) trav) exec option" where
  "ipt_do_table skb hook inn out private w =
     do_table_loop hook inn out (ntohs (iph_frag_off (skb_data skb)) AND 0x1FFF)
       (hook_entry private hook) (underflow private hook)
       \<lparr>tr_blob = entries private, tr_skb = skb, tr_hotdrop = False, tr_world = w\<rparr>"

declare do_table_loop.simps [code]

end
