(* ===== verification/X_Tables.thy ===== *)
theory X_Tables
  imports Ip_Tables
begin

section \<open>The registry of tables, matches and targets\<close>

text \<open>
  \<^verbatim>\<open>net/netfilter/x_tables.c\<close> for the one address family \<open>AF_INET\<close>: registration and
  lookup of matches, targets and tables, and the replacement of a table's rules. The
  semaphore \<open>xt[af].mutex\<close> is always obtained (no signal is pending), so the \<open>EINTR\<close>
  results do not occur. \<open>ERR_PTR(0)\<close> is the \<open>NULL\<close> pointer.
\<close>

datatype ('a, 'w) found = ErrPtr int | Found 'a 'w

record ('w, 'm, 't) xt_table =
  tb_name :: string
  tb_valid_hooks :: u32
  tb_private :: "('w, 'm, 't) xt_table_info"
  tb_get :: "'w \<Rightarrow> 'w option"
  tb_put :: "'w \<Rightarrow> 'w"

record ('w, 'm, 't) xt_af =
  xt_matches :: "('w, 'm) xt_match list"
  xt_targets :: "('w, 't) xt_target list"
  xt_tables :: "('w, 'm, 't) xt_table list"

definition xt_register_target :: "('w, 't) xt_target \<Rightarrow> ('w, 'm, 't) xt_af \<Rightarrow> int \<times> ('w, 'm, 't) xt_af" where
  "xt_register_target t xt = (0, xt\<lparr>xt_targets := t # xt_targets xt\<rparr>)"

definition xt_register_match :: "('w, 'm) xt_match \<Rightarrow> ('w, 'm, 't) xt_af \<Rightarrow> int \<times> ('w, 'm, 't) xt_af" where
  "xt_register_match m xt = (0, xt\<lparr>xt_matches := m # xt_matches xt\<rparr>)"

text \<open>The two lookup loops: a revision mismatch is remembered in \<open>err\<close>, a module that is
  going away (\<open>try_module_get\<close> fails) is passed over.\<close>

fun find_match_loop :: "('w, 'm) xt_match list \<Rightarrow> string \<Rightarrow> u8 \<Rightarrow> int \<Rightarrow> 'w \<Rightarrow> (('w, 'm) xt_match, 'w) found" where
  "find_match_loop [] name revision err w = ErrPtr err"
| "find_match_loop (m # ms) name revision err w =
     (if xm_name m = name then
        if xm_revision m = revision then
          (case xm_get m w of
             Some w' \<Rightarrow> Found m w'
           | None \<Rightarrow> find_match_loop ms name revision err w)
        else find_match_loop ms name revision (- EPROTOTYPE) w
      else find_match_loop ms name revision err w)"

definition xt_find_match :: "('w, 'm, 't) xt_af \<Rightarrow> string \<Rightarrow> u8 \<Rightarrow> 'w \<Rightarrow> (('w, 'm) xt_match, 'w) found" where
  "xt_find_match xt name revision w = find_match_loop (xt_matches xt) name revision 0 w"

fun find_target_loop :: "('w, 't) xt_target list \<Rightarrow> string \<Rightarrow> u8 \<Rightarrow> int \<Rightarrow> 'w \<Rightarrow> (('w, 't) xt_target, 'w) found" where
  "find_target_loop [] name revision err w = ErrPtr err"
| "find_target_loop (t # ts) name revision err w =
     (if xt_name t = name then
        if xt_revision t = revision then
          (case xt_get t w of
             Some w' \<Rightarrow> Found t w'
           | None \<Rightarrow> find_target_loop ts name revision err w)
        else find_target_loop ts name revision (- EPROTOTYPE) w
      else find_target_loop ts name revision err w)"

definition xt_find_target :: "('w, 'm, 't) xt_af \<Rightarrow> string \<Rightarrow> u8 \<Rightarrow> 'w \<Rightarrow> (('w, 't) xt_target, 'w) found" where
  "xt_find_target xt name revision w = find_target_loop (xt_targets xt) name revision 0 w"

fun match_revfn :: "('w, 'm) xt_match list \<Rightarrow> string \<Rightarrow> u8 \<Rightarrow> int \<Rightarrow> bool \<Rightarrow> bool \<times> int" where
  "match_revfn [] name revision best have_rev = (have_rev, best)"
| "match_revfn (m # ms) name revision best have_rev =
     (if xm_name m = name
      then match_revfn ms name revision
             (if best < int (unat (xm_revision m)) then int (unat (xm_revision m)) else best)
             (have_rev \<or> xm_revision m = revision)
      else match_revfn ms name revision best have_rev)"

fun target_revfn :: "('w, 't) xt_target list \<Rightarrow> string \<Rightarrow> u8 \<Rightarrow> int \<Rightarrow> bool \<Rightarrow> bool \<times> int" where
  "target_revfn [] name revision best have_rev = (have_rev, best)"
| "target_revfn (t # ts) name revision best have_rev =
     (if xt_name t = name
      then target_revfn ts name revision
             (if best < int (unat (xt_revision t)) then int (unat (xt_revision t)) else best)
             (have_rev \<or> xt_revision t = revision)
      else target_revfn ts name revision best have_rev)"

text \<open>The result is the return value and \<open>*err\<close>.\<close>

definition xt_find_revision :: "('w, 'm, 't) xt_af \<Rightarrow> string \<Rightarrow> u8 \<Rightarrow> bool \<Rightarrow> bool \<times> int" where
  "xt_find_revision xt name revision is_target =
     (let (have_rev, best) =
            (if is_target then target_revfn (xt_targets xt) name revision (- 1) False
             else match_revfn (xt_matches xt) name revision (- 1) False)
      in if best = - 1 then (False, - ENOENT)
         else (True, if \<not> have_rev then - EPROTONOSUPPORT else best))"

fun find_table_loop :: "('w, 'm, 't) xt_table list \<Rightarrow> string \<Rightarrow> 'w \<Rightarrow> (('w, 'm, 't) xt_table \<times> 'w) option" where
  "find_table_loop [] name w = None"
| "find_table_loop (t # ts) name w =
     (if tb_name t = name
      then (case tb_get t w of Some w' \<Rightarrow> Some (t, w') | None \<Rightarrow> find_table_loop ts name w)
      else find_table_loop ts name w)"

definition xt_find_table_lock :: "('w, 'm, 't) xt_af \<Rightarrow> string \<Rightarrow> 'w \<Rightarrow> (('w, 'm, 't) xt_table \<times> 'w) option" where
  "xt_find_table_lock xt name w = find_table_loop (xt_tables xt) name w"

text \<open>\<open>xt_replace_table\<close> returns the old rules, or the error; the new rules inherit
  \<open>initial_entries\<close>.\<close>

definition xt_replace_table :: "('w, 'm, 't) xt_table \<Rightarrow> u32 \<Rightarrow> ('w, 'm, 't) xt_table_info
    \<Rightarrow> (('w, 'm, 't) xt_table_info \<times> ('w, 'm, 't) xt_table) + int" where
  "xt_replace_table table num_counters newinfo =
     (let private = tb_private table in
      if num_counters \<noteq> number private then Inr (- EAGAIN)
      else Inl (private, table\<lparr>tb_private := newinfo\<lparr>initial_entries := initial_entries private\<rparr>\<rparr>))"

definition xt_register_table :: "('w, 'm, 't) xt_table \<Rightarrow> ('w, 'm, 't) xt_table_info
    \<Rightarrow> ('w, 'm, 't) xt_table_info \<Rightarrow> ('w, 'm, 't) xt_af \<Rightarrow> int \<times> ('w, 'm, 't) xt_af" where
  "xt_register_table table bootstrap newinfo xt =
     (if tb_name table \<in> tb_name ` set (xt_tables xt) then (- EEXIST, xt)
      else (case xt_replace_table (table\<lparr>tb_private := bootstrap\<rparr>) 0 newinfo of
              Inr err \<Rightarrow> (err, xt)
            | Inl (old, t) \<Rightarrow>
                (0, xt\<lparr>xt_tables :=
                      t\<lparr>tb_private := (tb_private t)\<lparr>initial_entries := number (tb_private t)\<rparr>\<rparr>
                      # xt_tables xt\<rparr>)))"

text \<open>Names in the list are distinct, so deleting the table is deleting its name.\<close>

fun delete_table :: "string \<Rightarrow> ('w, 'm, 't) xt_table list \<Rightarrow> ('w, 'm, 't) xt_table list" where
  "delete_table name [] = []"
| "delete_table name (t # ts) = (if tb_name t = name then ts else t # delete_table name ts)"

definition xt_unregister_table :: "('w, 'm, 't) xt_table \<Rightarrow> ('w, 'm, 't) xt_af
    \<Rightarrow> ('w, 'm, 't) xt_table_info \<times> ('w, 'm, 't) xt_af" where
  "xt_unregister_table table xt =
     (tb_private table, xt\<lparr>xt_tables := delete_table (tb_name table) (xt_tables xt)\<rparr>)"

subsection \<open>Lookup facts\<close>

lemma find_match_loop_Found:
  "find_match_loop ms name revision err w = Found m w' \<Longrightarrow>
     m \<in> set ms \<and> xm_name m = name \<and> xm_revision m = revision \<and> xm_get m w = Some w'"
  by (induction ms arbitrary: err) (auto split: if_splits option.splits)

lemma find_target_loop_Found:
  "find_target_loop ts name revision err w = Found t w' \<Longrightarrow>
     t \<in> set ts \<and> xt_name t = name \<and> xt_revision t = revision \<and> xt_get t w = Some w'"
  by (induction ts arbitrary: err) (auto split: if_splits option.splits)

lemma xt_find_match_Found:
  "xt_find_match xt name revision w = Found m w' \<Longrightarrow>
     m \<in> set (xt_matches xt) \<and> xm_name m = name \<and> xm_revision m = revision \<and> xm_get m w = Some w'"
  unfolding xt_find_match_def by (rule find_match_loop_Found)

lemma xt_find_target_Found:
  "xt_find_target xt name revision w = Found t w' \<Longrightarrow>
     t \<in> set (xt_targets xt) \<and> xt_name t = name \<and> xt_revision t = revision \<and> xt_get t w = Some w'"
  unfolding xt_find_target_def by (rule find_target_loop_Found)

text \<open>When no module is going away, a lookup fails exactly when nothing has that name and
  revision, and the error says whether the name exists.\<close>

lemma find_target_loop_ErrPtr:
  assumes "\<forall>t \<in> set ts. xt_get t w \<noteq> None"
  shows "find_target_loop ts name revision err w = ErrPtr k \<longleftrightarrow>
    (\<forall>t \<in> set ts. \<not> (xt_name t = name \<and> xt_revision t = revision)) \<and>
    k = (if \<exists>t \<in> set ts. xt_name t = name then - EPROTOTYPE else err)"
  using assms by (induction ts arbitrary: err) (auto split: option.splits)

lemma match_revfn_spec:
  "match_revfn ms name revision best have_rev =
     (have_rev \<or> (\<exists>m \<in> set ms. xm_name m = name \<and> xm_revision m = revision),
      fold max (map (int \<circ> unat \<circ> xm_revision) (filter (\<lambda>m. xm_name m = name) ms)) best)"
  by (induction ms arbitrary: best have_rev) (auto simp: max_def)

lemma xt_tables_distinct:
  assumes "distinct (map tb_name (xt_tables xt))"
  shows "distinct (map tb_name (xt_tables (snd (xt_register_table t bs ni xt))))"
  using assms
  by (auto simp: xt_register_table_def xt_replace_table_def Let_def split: sum.splits if_splits)

lemma register_unregister_table:
  assumes "xt_register_table t bs ni xt = (0, xt')"
  shows "xt_tables (snd (xt_unregister_table t xt')) = xt_tables xt"
  using assms
  by (auto simp: xt_register_table_def xt_unregister_table_def xt_replace_table_def Let_def
      split: sum.splits if_splits)

end
