(* ===== verification/Ip_Tables_Check.thy ===== *)
theory Ip_Tables_Check
  imports X_Tables
begin

section \<open>Checking and translating a rule table\<close>

text \<open>
  The load-time half of \<^verbatim>\<open>net/ipv4/netfilter/ip_tables.c\<close>: \<open>unconditional\<close>, the
  depth-first loop detection \<open>mark_source_chains\<close> with its back pointers in
  \<open>counters.pcnt\<close>, the per-entry checks and \<open>translate_table\<close>. Only the definitions are
  here; their theory is in \<open>Mark_Chains\<close> and \<open>Translate\<close>.
\<close>

definition ip_checkentry :: "ipt_ip \<Rightarrow> bool" where
  "ip_checkentry i =
     (if flags i AND NOT IPT_F_MASK \<noteq> 0 then False
      else if invflags i AND NOT IPT_INV_MASK \<noteq> 0 then False
      else True)"

text \<open>\<open>struct ipt_ip\<close> read as an array of 32-bit words.\<close>

definition ipt_ip_words :: "ipt_ip \<Rightarrow> u32 list" where
  "ipt_ip_words i =
     [src i, dst i, smsk i, dmsk i]
     @ map (\<lambda>k. rd32 (iniface i) (4 * k)) [0..<4] @ map (\<lambda>k. rd32 (outiface i) (4 * k)) [0..<4]
     @ map (\<lambda>k. rd32 (iniface_mask i) (4 * k)) [0..<4] @ map (\<lambda>k. rd32 (outiface_mask i) (4 * k)) [0..<4]
     @ [ucast (proto i) OR push_bit 16 (ucast (flags i)) OR push_bit 24 (ucast (invflags i))]"

definition unconditional :: "ipt_ip \<Rightarrow> bool" where
  "unconditional i \<longleftrightarrow> list_all (\<lambda>w. w = 0) (ipt_ip_words i)"

subsection \<open>Loop detection\<close>

definition is_standard :: "('w, 'm, 't) ipt_entry \<Rightarrow> bool" where
  "is_standard e \<longleftrightarrow> target_name (target_u (target e)) = ''''"

text \<open>An unconditional return, or the end of a chain.\<close>

definition is_end :: "('w, 'm, 't) ipt_entry \<Rightarrow> bool" where
  "is_end e \<longleftrightarrow> target_offset e = of_nat sizeof_ipt_entry \<and> is_standard e
     \<and> sint (verdict (target e)) < 0 \<and> unconditional (ip e)"

definition set_pcnt :: "u32 \<Rightarrow> u32 \<Rightarrow> ('w, 'm, 't) blob \<Rightarrow> ('w, 'm, 't) blob option" where
  "set_pcnt pos v b =
     (case b pos of
        None \<Rightarrow> None
      | Some e \<Rightarrow> Some (b(pos \<mapsto> e\<lparr>counters := (counters e)\<lparr>pcnt := ucast v\<rparr>\<rparr>)))"

text \<open>The \<open>do ... while (oldpos == pos + e->next_offset)\<close> loop: clear the on-path bit,
  follow the back pointer and reset it. It ends at the start of the chain or at the last big
  jump.\<close>

datatype ('w, 'm, 't) back_result =
    BFault
  | BNext "('w, 'm, 't) blob"
  | BJump u32 "('w, 'm, 't) blob"

partial_function (option) mark_back :: "u32 \<Rightarrow> ('w, 'm, 't) blob \<Rightarrow> ('w, 'm, 't) back_result option" where
  "mark_back oldpos b =
     (case b oldpos of
        None \<Rightarrow> Some BFault
      | Some e \<Rightarrow>
          (let pos = ucast (pcnt (counters e));
               b' = b(oldpos \<mapsto> e\<lparr>comefrom := comefrom e XOR push_bit NF_IP_NUMHOOKS 1,
                                   counters := (counters e)\<lparr>pcnt := 0\<rparr>\<rparr>)
           in if pos = oldpos then Some (BNext b')
              else (case b' pos of
                      None \<Rightarrow> Some BFault
                    | Some e' \<Rightarrow>
                        if oldpos = next_entry pos e' then mark_back pos b'
                        else Some (BJump pos b'))))"

text \<open>The \<open>for (;;)\<close> loop of one hook. It returns 0 at a loop and 1 when the chain is done.\<close>

partial_function (option) mark_walk :: "nat \<Rightarrow> u32 \<Rightarrow> ('w, 'm, 't) blob
    \<Rightarrow> (bool \<times> ('w, 'm, 't) blob) exec option" where
  "mark_walk hook pos b =
     (case b pos of
        None \<Rightarrow> Some Fault
      | Some e \<Rightarrow>
          if comefrom e AND push_bit NF_IP_NUMHOOKS 1 \<noteq> 0 then Some (Ret (False, b))
          else
            (let b1 = b(pos \<mapsto> e\<lparr>comefrom := comefrom e OR (push_bit hook 1 OR push_bit NF_IP_NUMHOOKS 1)\<rparr>)
             in if is_end e then
                  (case mark_back pos b1 of
                     None \<Rightarrow> None
                   | Some BFault \<Rightarrow> Some Fault
                   | Some (BNext b2) \<Rightarrow> Some (Ret (True, b2))
                   | Some (BJump pos2 b2) \<Rightarrow>
                       (case b2 pos2 of
                          None \<Rightarrow> Some Fault
                        | Some e2 \<Rightarrow>
                            (case set_pcnt (next_entry pos2 e2) pos2 b2 of
                               None \<Rightarrow> Some Fault
                             | Some b3 \<Rightarrow> mark_walk hook (next_entry pos2 e2) b3)))
                else
                  (let newpos = (if is_standard e \<and> 0 \<le> sint (verdict (target e))
                                 then verdict (target e) else next_entry pos e)
                   in (case set_pcnt newpos pos b1 of
                         None \<Rightarrow> Some Fault
                       | Some b2 \<Rightarrow> mark_walk hook newpos b2))))"

fun mark_hooks :: "nat list \<Rightarrow> (nat \<Rightarrow> u32) \<Rightarrow> u32 \<Rightarrow> ('w, 'm, 't) blob
    \<Rightarrow> (bool \<times> ('w, 'm, 't) blob) exec option" where
  "mark_hooks [] he valid_hooks b = Some (Ret (True, b))"
| "mark_hooks (hook # hooks) he valid_hooks b =
     (if valid_hooks AND push_bit hook 1 = 0 then mark_hooks hooks he valid_hooks b
      else
        (case set_pcnt (he hook) (he hook) b of
           None \<Rightarrow> Some Fault
         | Some b1 \<Rightarrow>
             (case mark_walk hook (he hook) b1 of
                None \<Rightarrow> None
              | Some Fault \<Rightarrow> Some Fault
              | Some (Ret (False, b2)) \<Rightarrow> Some (Ret (False, b2))
              | Some (Ret (True, b2)) \<Rightarrow> mark_hooks hooks he valid_hooks b2)))"

definition mark_source_chains :: "('w, 'm, 't) xt_table_info \<Rightarrow> u32
    \<Rightarrow> (bool \<times> ('w, 'm, 't) blob) exec option" where
  "mark_source_chains newinfo valid_hooks =
     mark_hooks [0..<NF_IP_NUMHOOKS] (hook_entry newinfo) valid_hooks (entries newinfo)"

subsection \<open>Entry checks\<close>

text \<open>\<open>IPT_ENTRY_ITERATE(entries, size, fn, ...)\<close>: \<open>fn\<close> gets the offset of the entry and may
  change the blob and whatever its extra arguments point to.\<close>

partial_function (option) entry_iterate ::
  "(u32 \<Rightarrow> ('w, 'm, 't) blob \<Rightarrow> 's \<Rightarrow> (int \<times> ('w, 'm, 't) blob \<times> 's) exec) \<Rightarrow> u32 \<Rightarrow> u32
    \<Rightarrow> ('w, 'm, 't) blob \<Rightarrow> 's \<Rightarrow> (int \<times> ('w, 'm, 't) blob \<times> 's) exec option" where
  "entry_iterate fn sz i b s =
     (if i < sz then
        (case fn i b s of
           Fault \<Rightarrow> Some Fault
         | Ret (r, b', s') \<Rightarrow>
             if r \<noteq> 0 then Some (Ret (r, b', s'))
             else (case b' i of
                     None \<Rightarrow> Some Fault
                   | Some e \<Rightarrow> entry_iterate fn sz (i + ucast (next_offset e)) b' s'))
      else Some (Ret (0, b, s)))"

text \<open>\<open>cleanup_match\<close> and \<open>cleanup_entry\<close>: a counter, when given, limits how many are undone.\<close>

definition cleanup_match :: "('w, 'm) ipt_entry_match \<Rightarrow> u32 option \<times> 'w
    \<Rightarrow> int \<times> ('w, 'm) ipt_entry_match \<times> u32 option \<times> 'w" where
  "cleanup_match m s =
     (case s of (i, w) \<Rightarrow>
        let i' = map_option (\<lambda>n. n - 1) i in
        if i = Some 0 then (1, m, i', w)
        else
          (case match_u m of
             MUser n r \<Rightarrow> (0, m, i', w)
           | MKernel k \<Rightarrow>
               (let w' = (case xm_destroy k of
                            Some d \<Rightarrow> d (match_data m) (ucast (match_size m) - of_nat sizeof_ipt_entry_match) w
                          | None \<Rightarrow> w)
                in (0, m, i', xm_put k w'))))"

text \<open>\<open>IPT_ALIGN\<close> rounds up to 4, the alignment of a \<open>u_int64_t\<close> in the target's ABI.\<close>

definition IPT_ALIGN :: "nat \<Rightarrow> nat" where
  "IPT_ALIGN s = (s + 3) div 4 * 4"

definition standard_check :: "('w, 't) ipt_entry_target \<Rightarrow> u32 \<Rightarrow> bool" where
  "standard_check t max_offset =
     (if unat (target_size t) \<noteq> IPT_ALIGN sizeof_ipt_standard_target then False
      else if 0 \<le> sint (verdict t) \<and> max_offset - of_nat sizeof_ipt_entry < verdict t then False
      else if sint (verdict t) < - NF_MAX_VERDICT - 1 then False
      else True)"

text \<open>\<open>try_then_request_module(x, ...)\<close>: when the lookup gives \<open>NULL\<close>, ask for the module and
  look again. \<open>modprobe\<close> is what loading a module does to the registry.\<close>

definition request_match :: "(string \<Rightarrow> ('w, 'm, 't) xt_af \<Rightarrow> ('w, 'm, 't) xt_af) \<Rightarrow> string \<Rightarrow> u8
    \<Rightarrow> ('w, 'm, 't) xt_af \<times> 'w \<Rightarrow> (('w, 'm) xt_match, 'w) found \<times> ('w, 'm, 't) xt_af" where
  "request_match modprobe name revision s =
     (case s of (xt, w) \<Rightarrow>
        (case xt_find_match xt name revision w of
           Found k w' \<Rightarrow> (Found k w', xt)
         | ErrPtr err \<Rightarrow>
             if err = 0
             then (xt_find_match (modprobe (''ipt_'' @ name) xt) name revision w, modprobe (''ipt_'' @ name) xt)
             else (ErrPtr err, xt)))"

definition request_target :: "(string \<Rightarrow> ('w, 'm, 't) xt_af \<Rightarrow> ('w, 'm, 't) xt_af) \<Rightarrow> string \<Rightarrow> u8
    \<Rightarrow> ('w, 'm, 't) xt_af \<times> 'w \<Rightarrow> (('w, 't) xt_target, 'w) found \<times> ('w, 'm, 't) xt_af" where
  "request_target modprobe name revision s =
     (case s of (xt, w) \<Rightarrow>
        (case xt_find_target xt name revision w of
           Found k w' \<Rightarrow> (Found k w', xt)
         | ErrPtr err \<Rightarrow>
             if err = 0
             then (xt_find_target (modprobe (''ipt_'' @ name) xt) name revision w, modprobe (''ipt_'' @ name) xt)
             else (ErrPtr err, xt)))"

text \<open>The error of a failed lookup: \<open>match ? PTR_ERR(match) : -ENOENT\<close>.\<close>

definition find_err :: "int \<Rightarrow> int" where
  "find_err err = (if err = 0 then - ENOENT else err)"

text \<open>Entries come from user space, so \<open>check_match\<close> and \<open>check_entry\<close> see the user form of
  the unions; the branches for the kernel form only make the functions total.\<close>

definition check_match :: "(string \<Rightarrow> ('w, 'm, 't) xt_af \<Rightarrow> ('w, 'm, 't) xt_af) \<Rightarrow> string \<Rightarrow> ipt_ip
    \<Rightarrow> u32 \<Rightarrow> ('w, 'm) ipt_entry_match \<Rightarrow> u32 \<times> ('w, 'm, 't) xt_af \<times> 'w
    \<Rightarrow> int \<times> ('w, 'm) ipt_entry_match \<times> u32 \<times> ('w, 'm, 't) xt_af \<times> 'w" where
  "check_match modprobe name ipp hookmask m s =
     (case s of (j, xt, w) \<Rightarrow>
        (case match_u m of
           MKernel k \<Rightarrow> (- EINVAL, m, j, xt, w)
         | MUser nm rv \<Rightarrow>
             (case request_match modprobe nm rv (xt, w) of
                (ErrPtr err, xt') \<Rightarrow> (find_err err, m, j, xt', w)
              | (Found k w', xt') \<Rightarrow>
                  (let m' = m\<lparr>match_u := MKernel k\<rparr> in
                   case xm_checkentry k of
                     None \<Rightarrow> (0, m', j + 1, xt', w')
                   | Some chk \<Rightarrow>
                       (case chk name ipp (match_data m)
                               (ucast (match_size m) - of_nat sizeof_ipt_entry_match) hookmask w' of
                          (ok, d, w'') \<Rightarrow>
                            if ok then (0, m'\<lparr>match_data := d\<rparr>, j + 1, xt', w'')
                            else (- EINVAL, m'\<lparr>match_data := d\<rparr>, j, xt', xm_put k w''))))))"

text \<open>The label \<open>cleanup_matches\<close> of \<open>check_entry\<close>.\<close>

definition cleanup_matches :: "('w, 'm, 't) ipt_entry \<Rightarrow> u32 \<Rightarrow> 'w \<Rightarrow> 'w" where
  "cleanup_matches e j w =
     snd (snd (snd (match_iterate cleanup_match sizeof_ipt_entry (unat (target_offset e)) (matches e) (Some j, w))))"

definition check_entry :: "(string \<Rightarrow> ('w, 'm, 't) xt_af \<Rightarrow> ('w, 'm, 't) xt_af) \<Rightarrow> string \<Rightarrow> u32
    \<Rightarrow> u32 \<Rightarrow> ('w, 'm, 't) blob \<Rightarrow> u32 \<times> ('w, 'm, 't) xt_af \<times> 'w
    \<Rightarrow> (int \<times> ('w, 'm, 't) blob \<times> u32 \<times> ('w, 'm, 't) xt_af \<times> 'w) exec" where
  "check_entry modprobe name sz pos b s =
     (case s of (i, xt, w) \<Rightarrow>
        (case b pos of
           None \<Rightarrow> Fault
         | Some e \<Rightarrow>
             if \<not> ip_checkentry (ip e) then Ret (- EINVAL, b, i, xt, w)
             else
               (case match_iterate (check_match modprobe name (ip e) (comefrom e)) sizeof_ipt_entry
                       (unat (target_offset e)) (matches e) (0, xt, w) of
                  (r, ms, j, xt1, w1) \<Rightarrow>
                    (let e1 = e\<lparr>matches := ms\<rparr> in
                     if r \<noteq> 0 then Ret (r, b(pos \<mapsto> e1), i, xt1, cleanup_matches e1 j w1)
                     else
                       (case target_u (target e) of
                          TKernel k \<Rightarrow> Ret (- EINVAL, b(pos \<mapsto> e1), i, xt1, cleanup_matches e1 j w1)
                        | TUser nm rv \<Rightarrow>
                            (case request_target modprobe nm rv (xt1, w1) of
                               (ErrPtr err, xt2) \<Rightarrow>
                                 Ret (find_err err, b(pos \<mapsto> e1), i, xt2, cleanup_matches e1 j w1)
                             | (Found t w2, xt2) \<Rightarrow>
                                 (let e2 = e1\<lparr>target := (target e)\<lparr>target_u := TKernel t\<rparr>\<rparr> in
                                  if xt_name t = '''' then
                                    if \<not> standard_check (target e) sz
                                    then Ret (- EINVAL, b(pos \<mapsto> e2), i, xt2, cleanup_matches e2 j w2)
                                    else Ret (0, b(pos \<mapsto> e2), i + 1, xt2, w2)
                                  else
                                    (case xt_checkentry t of
                                       None \<Rightarrow> Ret (0, b(pos \<mapsto> e2), i + 1, xt2, w2)
                                     | Some chk \<Rightarrow>
                                         (case chk name (ip e) (target_data (target e))
                                                 (ucast (target_size (target e)) - of_nat sizeof_ipt_entry_target)
                                                 (comefrom e) w2 of
                                            (ok, d, w3) \<Rightarrow>
                                              (let e3 = e2\<lparr>target := (target e2)\<lparr>target_data := d\<rparr>\<rparr> in
                                               if ok then Ret (0, b(pos \<mapsto> e3), i + 1, xt2, w3)
                                               else Ret (- EINVAL, b(pos \<mapsto> e3), i, xt2,
                                                         cleanup_matches e3 j (xt_put t w3))))))))))))"

text \<open>\<open>limit\<close> is \<open>entry0 + size\<close>. The first test comes before the entry is read.\<close>

definition check_entry_size_and_hooks :: "u32 \<Rightarrow> (nat \<Rightarrow> u32) \<Rightarrow> (nat \<Rightarrow> u32) \<Rightarrow> u32 \<Rightarrow> ('w, 'm, 't) blob
    \<Rightarrow> (nat \<Rightarrow> u32) \<times> (nat \<Rightarrow> u32) \<times> u32
    \<Rightarrow> (int \<times> ('w, 'm, 't) blob \<times> (nat \<Rightarrow> u32) \<times> (nat \<Rightarrow> u32) \<times> u32) exec" where
  "check_entry_size_and_hooks sz hook_entries underflows pos b s =
     (case s of (he, uf, i) \<Rightarrow>
        if unat pos mod 4 \<noteq> 0 \<or> unat sz \<le> unat pos + sizeof_ipt_entry then Ret (- EINVAL, b, s)
        else
          (case b pos of
             None \<Rightarrow> Fault
           | Some e \<Rightarrow>
               if unat (next_offset e) < sizeof_ipt_entry + sizeof_ipt_entry_target then Ret (- EINVAL, b, s)
               else
                 Ret (0, b(pos \<mapsto> e\<lparr>counters := \<lparr>pcnt = 0, bcnt = 0\<rparr>, comefrom := 0\<rparr>),
                      \<lambda>h. if h < NF_IP_NUMHOOKS \<and> pos = hook_entries h then hook_entries h else he h,
                      \<lambda>h. if h < NF_IP_NUMHOOKS \<and> pos = underflows h then underflows h else uf h,
                      i + 1)))"

definition cleanup_entry :: "u32 \<Rightarrow> ('w, 'm, 't) blob \<Rightarrow> u32 option \<times> 'w
    \<Rightarrow> (int \<times> ('w, 'm, 't) blob \<times> u32 option \<times> 'w) exec" where
  "cleanup_entry pos b s =
     (case s of (i, w) \<Rightarrow>
        let i' = map_option (\<lambda>n. n - 1) i in
        if i = Some 0 then Ret (1, b, i', w)
        else
          (case b pos of
             None \<Rightarrow> Fault
           | Some e \<Rightarrow>
               (let w1 = snd (snd (snd (match_iterate cleanup_match sizeof_ipt_entry
                                          (unat (target_offset e)) (matches e) (None, w))))
                in (case target_u (target e) of
                      TUser n r \<Rightarrow> Fault
                    | TKernel t \<Rightarrow>
                        (let w2 = (case xt_destroy t of
                                     Some d \<Rightarrow> d (target_data (target e))
                                                (ucast (target_size (target e)) - of_nat sizeof_ipt_entry_target) w1
                                   | None \<Rightarrow> w1)
                         in Ret (0, b, i', xt_put t w2))))))"

text \<open>\<open>translate_table\<close>: the two arrays \<open>newinfo->hook_entry\<close> and \<open>newinfo->underflow\<close> start
  at an impossible value. The result is the error code, the new \<open>newinfo\<close>, the registry and
  the state.\<close>

definition hooks_assigned :: "u32 \<Rightarrow> (nat \<Rightarrow> u32) \<Rightarrow> (nat \<Rightarrow> u32) \<Rightarrow> bool" where
  "hooks_assigned valid_hooks he uf \<longleftrightarrow>
     list_all (\<lambda>i. valid_hooks AND push_bit i 1 = 0 \<or> (he i \<noteq> 0xFFFFFFFF \<and> uf i \<noteq> 0xFFFFFFFF))
       [0..<NF_IP_NUMHOOKS]"

definition translate_table :: "(string \<Rightarrow> ('w, 'm, 't) xt_af \<Rightarrow> ('w, 'm, 't) xt_af) \<Rightarrow> string \<Rightarrow> u32
    \<Rightarrow> ('w, 'm, 't) xt_table_info \<Rightarrow> u32 \<Rightarrow> u32 \<Rightarrow> (nat \<Rightarrow> u32) \<Rightarrow> (nat \<Rightarrow> u32)
    \<Rightarrow> ('w, 'm, 't) xt_af \<times> 'w
    \<Rightarrow> (int \<times> ('w, 'm, 't) xt_table_info \<times> ('w, 'm, 't) xt_af \<times> 'w) exec option" where
  "translate_table modprobe name valid_hooks newinfo sz num hook_entries underflows s =
     (case s of (xt, w) \<Rightarrow>
        let ni0 = newinfo\<lparr>size := sz, number := num\<rparr> in
        (case entry_iterate (check_entry_size_and_hooks sz hook_entries underflows) sz 0
                (entries newinfo) (\<lambda>h. 0xFFFFFFFF, \<lambda>h. 0xFFFFFFFF, 0) of
           None \<Rightarrow> None
         | Some Fault \<Rightarrow> Some Fault
         | Some (Ret (ret, b1, he, uf, i)) \<Rightarrow>
             (let ni1 = ni0\<lparr>hook_entry := he, underflow := uf, entries := b1\<rparr> in
              if ret \<noteq> 0 then Some (Ret (ret, ni1, xt, w))
              else if i \<noteq> num then Some (Ret (- EINVAL, ni1, xt, w))
              else if \<not> hooks_assigned valid_hooks he uf then Some (Ret (- EINVAL, ni1, xt, w))
              else
                (case mark_source_chains ni1 valid_hooks of
                   None \<Rightarrow> None
                 | Some Fault \<Rightarrow> Some Fault
                 | Some (Ret (False, b2)) \<Rightarrow> Some (Ret (- ELOOP, ni1\<lparr>entries := b2\<rparr>, xt, w))
                 | Some (Ret (True, b2)) \<Rightarrow>
                     (case entry_iterate (check_entry modprobe name sz) sz 0 b2 (0, xt, w) of
                        None \<Rightarrow> None
                      | Some Fault \<Rightarrow> Some Fault
                      | Some (Ret (ret2, b3, i2, xt2, w2)) \<Rightarrow>
                          if ret2 \<noteq> 0 then
                            (case entry_iterate cleanup_entry sz 0 b3 (Some i2, w2) of
                               None \<Rightarrow> None
                             | Some Fault \<Rightarrow> Some Fault
                             | Some (Ret (_, b4, _, w3)) \<Rightarrow>
                                 Some (Ret (ret2, ni1\<lparr>entries := b4\<rparr>, xt2, w3)))
                          else Some (Ret (0, ni1\<lparr>entries := b3\<rparr>, xt2, w2)))))))"

declare mark_back.simps [code] mark_walk.simps [code] entry_iterate.simps [code]

end
