(* ===== verification/Sample_Table.thy ===== *)
theory Sample_Table
  imports Ip_Tables_Check
begin

section \<open>A small filter table\<close>

text \<open>
  A concrete \<open>filter\<close> table for the examples: INPUT sends TCP packets through a user chain
  that accepts those from 10.0.0.1 and returns, INPUT and OUTPUT accept by policy, FORWARD
  drops by policy, and the blob ends with the usual \<open>ERROR\<close> entry. Standard entries are 148
  bytes long.
\<close>

definition ip_any :: ipt_ip where
  "ip_any = \<lparr>src = 0, dst = 0, smsk = 0, dmsk = 0, iniface = replicate 16 0, outiface = replicate 16 0,
     iniface_mask = replicate 16 0, outiface_mask = replicate 16 0, proto = 0, flags = 0, invflags = 0\<rparr>"

definition std_entry :: "ipt_ip \<Rightarrow> u32 \<Rightarrow> (unit, unit, unit) ipt_entry" where
  "std_entry i v = \<lparr>ip = i, target_offset = 112, next_offset = 148, comefrom = 0,
     counters = \<lparr>pcnt = 0, bcnt = 0\<rparr>, matches = [],
     target = \<lparr>target_size = 36, target_u = TUser '''' 0, target_data = (), verdict = v\<rparr>\<rparr>"

definition error_entry :: "(unit, unit, unit) ipt_entry" where
  "error_entry = \<lparr>ip = ip_any, target_offset = 112, next_offset = 176, comefrom = 0,
     counters = \<lparr>pcnt = 0, bcnt = 0\<rparr>, matches = [],
     target = \<lparr>target_size = 64, target_u = TUser ''ERROR'' 0, target_data = (), verdict = 0\<rparr>\<rparr>"

definition sample_blob :: "(unit, unit, unit) blob" where
  "sample_blob =
     [0 \<mapsto> std_entry (ip_any\<lparr>proto := 6\<rparr>) 592, 148 \<mapsto> std_entry ip_any (- 2),
      296 \<mapsto> std_entry ip_any (- 1), 444 \<mapsto> std_entry ip_any (- 2),
      592 \<mapsto> std_entry (ip_any\<lparr>src := 0x0100000A, smsk := 0xFFFFFFFF\<rparr>) (- 2),
      740 \<mapsto> std_entry ip_any (- 5), 888 \<mapsto> error_entry]"

definition sample_hooks :: "nat \<Rightarrow> u32" where
  "sample_hooks h = (if h = 1 then 0 else if h = 2 then 296 else if h = 3 then 444 else 0xFFFFFFFF)"

definition sample_underflows :: "nat \<Rightarrow> u32" where
  "sample_underflows h = (if h = 1 then 148 else if h = 2 then 296 else if h = 3 then 444 else 0xFFFFFFFF)"

definition sample_info :: "(unit, unit, unit) xt_table_info" where
  "sample_info = \<lparr>size = 1064, number = 7, initial_entries = 0, hook_entry = sample_hooks,
     underflow = sample_underflows, entries = sample_blob\<rparr>"

definition standard_target :: "(unit, unit) xt_target" where
  "standard_target = \<lparr>xt_name = '''', xt_revision = 0, xt_target = None, xt_checkentry = None,
     xt_destroy = None, xt_get = Some, xt_put = id\<rparr>"

definition error_target :: "(unit, unit) xt_target" where
  "error_target = \<lparr>xt_name = ''ERROR'', xt_revision = 0, xt_target = Some ipt_error, xt_checkentry = None,
     xt_destroy = None, xt_get = Some, xt_put = id\<rparr>"

definition sample_af :: "(unit, unit, unit) xt_af" where
  "sample_af = \<lparr>xt_matches = [], xt_targets = [error_target, standard_target], xt_tables = []\<rparr>"

lemmas sample_defs = sample_blob_def sample_hooks_def sample_underflows_def sample_info_def std_entry_def
  error_entry_def ip_any_def

lemma sample_dom: "dom sample_blob = {0, 148, 296, 444, 592, 740, 888}"
  by (auto simp: sample_blob_def)

text \<open>Reading off the return value of a run.\<close>

fun ret_ok :: "(bool \<times> 'b) exec option \<Rightarrow> bool" where
  "ret_ok (Some (Ret (ok, b))) = ok"
| "ret_ok _ = False"

lemma sample_marks: "ret_ok (mark_source_chains sample_info 0x0E)"
  by code_simp

end
