(* ===== verification/Mark_Chains.thy ===== *)
theory Mark_Chains
  imports Sample_Table
begin

section \<open>Loop detection is correct\<close>

text \<open>
  \<open>mark_source_chains\<close> is a depth-first search that keeps its stack in the packet counters
  (back pointers) and its path in bit 5 of \<open>comefrom\<close>. The rule graph has one node per entry;
  this theory shows that the search always ends, that it accepts exactly the tables whose
  reachable rules form no cycle, that it leaves every packet counter at zero, and that it sets
  the hook bit of exactly the rules reachable from that hook.
\<close>

subsection \<open>The rule graph\<close>

datatype node = NEnd | NStep u32 | NJump u32 u32

definition entry_node :: "u32 \<Rightarrow> ('w, 'm, 't) ipt_entry \<Rightarrow> node" where
  "entry_node p e =
     (if is_end e then NEnd
      else if is_standard e \<and> 0 \<le> sint (verdict (target e)) \<and> verdict (target e) \<noteq> next_entry p e
      then NJump (verdict (target e)) (next_entry p e)
      else NStep (next_entry p e))"

definition graph :: "('w, 'm, 't) blob \<Rightarrow> u32 \<rightharpoonup> node" where
  "graph b p = map_option (entry_node p) (b p)"

inductive edge :: "(u32 \<rightharpoonup> node) \<Rightarrow> u32 \<Rightarrow> u32 \<Rightarrow> bool" for G where
  edge_Step: "G p = Some (NStep q) \<Longrightarrow> edge G p q"
| edge_Jump: "G p = Some (NJump v q) \<Longrightarrow> edge G p v"
| edge_Next: "G p = Some (NJump v q) \<Longrightarrow> edge G p q"

lemma edge_iff:
  "G p = Some NEnd \<Longrightarrow> edge G p x \<longleftrightarrow> False"
  "G p = Some (NStep q) \<Longrightarrow> edge G p x \<longleftrightarrow> x = q"
  "G p = Some (NJump v q) \<Longrightarrow> edge G p x \<longleftrightarrow> x = v \<or> x = q"
  by (auto simp: edge.simps)

abbreviation reach :: "(u32 \<rightharpoonup> node) \<Rightarrow> u32 \<Rightarrow> u32 \<Rightarrow> bool" where
  "reach G \<equiv> rtranclp (edge G)"

lemma reach_iff: "reach G p x \<longleftrightarrow> x = p \<or> (\<exists>q. edge G p q \<and> reach G q x)"
  by (metis converse_rtranclpE converse_rtranclp_into_rtranclp rtranclp.rtrancl_refl)

lemma reach_node:
  "G p = Some NEnd \<Longrightarrow> reach G p x \<longleftrightarrow> x = p"
  "G p = Some (NStep q) \<Longrightarrow> reach G p x \<longleftrightarrow> x = p \<or> reach G q x"
  "G p = Some (NJump v q) \<Longrightarrow> reach G p x \<longleftrightarrow> x = p \<or> reach G v x \<or> reach G q x"
  using reach_iff [of G p x] by (auto simp: edge_iff)

text \<open>A node from which every path ends: the unfolding of the graph there is finite.\<close>

inductive dag :: "(u32 \<rightharpoonup> node) \<Rightarrow> u32 \<Rightarrow> bool" for G where
  dag_End: "G p = Some NEnd \<Longrightarrow> dag G p"
| dag_Step: "G p = Some (NStep q) \<Longrightarrow> dag G q \<Longrightarrow> dag G p"
| dag_Jump: "G p = Some (NJump v q) \<Longrightarrow> dag G v \<Longrightarrow> dag G q \<Longrightarrow> dag G p"

lemma dag_edge: "dag G p \<Longrightarrow> edge G p q \<Longrightarrow> dag G q"
  by (erule dag.cases; erule edge.cases; auto)

lemma dag_reach: "reach G p q \<Longrightarrow> dag G p \<Longrightarrow> dag G q"
  by (induction rule: rtranclp_induct) (auto intro: dag_edge)

lemma dag_entry: "dag G p \<Longrightarrow> G p \<noteq> None"
  by (erule dag.cases) auto

lemma dag_no_cycle: "dag G p \<Longrightarrow> \<not> (edge G)\<^sup>+\<^sup>+ p p"
proof (induction rule: dag.induct)
  case (dag_End p)
  then show ?case by (auto elim!: edge.cases dest!: tranclpD)
next
  case (dag_Step p q)
  then have "\<And>r. edge G p r \<Longrightarrow> r = q" by (auto elim: edge.cases)
  with dag_Step show ?case
    by (metis rtranclp_into_tranclp1 tranclpD)
next
  case (dag_Jump p v q)
  then have "\<And>r. edge G p r \<Longrightarrow> r = q \<or> r = v" by (auto elim: edge.cases)
  with dag_Jump show ?case
    by (metis rtranclp_into_tranclp1 tranclpD)
qed

subsection \<open>Observing a blob\<close>

definition cf :: "('w, 'm, 't) blob \<Rightarrow> u32 \<Rightarrow> nat \<Rightarrow> bool" where
  "cf b x k \<longleftrightarrow> (\<exists>e. b x = Some e \<and> bit (comefrom e) k)"

abbreviation onp :: "('w, 'm, 't) blob \<Rightarrow> u32 \<Rightarrow> bool" where
  "onp b x \<equiv> cf b x 5"

definition pc :: "('w, 'm, 't) blob \<Rightarrow> u32 \<Rightarrow> u64 option" where
  "pc b x = map_option (\<lambda>e. pcnt (counters e)) (b x)"

definition nxt :: "('w, 'm, 't) blob \<Rightarrow> u32 \<Rightarrow> u32 option" where
  "nxt b x = map_option (next_entry x) (b x)"

text \<open>Everything of an entry but \<open>comefrom\<close> and the packet counter.\<close>

definition strip :: "('w, 'm, 't) ipt_entry \<Rightarrow> ('w, 'm, 't) ipt_entry" where
  "strip e = e\<lparr>comefrom := 0, counters := (counters e)\<lparr>pcnt := 0\<rparr>\<rparr>"

definition frame :: "('w, 'm, 't) blob \<Rightarrow> ('w, 'm, 't) blob \<Rightarrow> bool" where
  "frame b b' \<longleftrightarrow> (\<forall>x. map_option strip (b x) = map_option strip (b' x))"

lemma frame_refl [simp]: "frame b b" by (simp add: frame_def)
lemma frame_trans: "frame a b \<Longrightarrow> frame b c \<Longrightarrow> frame a c" by (simp add: frame_def)
lemma frame_sym: "frame a b \<Longrightarrow> frame b a" by (simp add: frame_def)

lemma strip_fields:
  "ip (strip e) = ip e" "target_offset (strip e) = target_offset e" "next_offset (strip e) = next_offset e"
  "matches (strip e) = matches e" "target (strip e) = target e"
  by (simp_all add: strip_def)

lemma entry_node_strip: "entry_node p (strip e) = entry_node p e"
  by (simp add: entry_node_def is_end_def is_standard_def next_entry_def strip_fields)

lemma next_entry_strip: "next_entry p (strip e) = next_entry p e"
  by (simp add: next_entry_def strip_fields)

lemma graph_strip: "graph b p = map_option (entry_node p) (map_option strip (b p))"
  by (simp add: graph_def option.map_comp o_def entry_node_strip)

lemma nxt_strip: "nxt b p = map_option (next_entry p) (map_option strip (b p))"
  by (simp add: nxt_def option.map_comp o_def next_entry_strip)

lemma frame_graph: "frame b b' \<Longrightarrow> graph b' = graph b"
  by (rule ext) (simp only: graph_strip frame_def)

lemma frame_nxt: "frame b b' \<Longrightarrow> nxt b' = nxt b"
  by (rule ext) (simp only: nxt_strip frame_def)

lemma frame_dom: "frame b b' \<Longrightarrow> b' x = None \<longleftrightarrow> b x = None"
  by (metis frame_def option.map_disc_iff)

lemma frame_upd: "b p = Some e \<Longrightarrow> strip e' = strip e \<Longrightarrow> frame b (b(p \<mapsto> e'))"
  by (simp add: frame_def)

subsection \<open>The elementary updates\<close>

definition mark :: "nat \<Rightarrow> u32 \<Rightarrow> ('w, 'm, 't) blob \<Rightarrow> ('w, 'm, 't) blob" where
  "mark h p b = b(p := map_option (\<lambda>e. e\<lparr>comefrom := comefrom e OR (push_bit h 1 OR push_bit 5 1)\<rparr>) (b p))"

definition unmark :: "u32 \<Rightarrow> ('w, 'm, 't) blob \<Rightarrow> ('w, 'm, 't) blob" where
  "unmark p b = b(p := map_option (\<lambda>e. e\<lparr>comefrom := comefrom e XOR push_bit 5 1,
                                        counters := (counters e)\<lparr>pcnt := 0\<rparr>\<rparr>) (b p))"

lemma strip_simps [simp]:
  "strip (e\<lparr>comefrom := c\<rparr>) = strip e"
  "strip (e\<lparr>counters := (counters e)\<lparr>pcnt := n\<rparr>\<rparr>) = strip e"
  "strip (e\<lparr>comefrom := c, counters := (counters e)\<lparr>pcnt := n\<rparr>\<rparr>) = strip e"
  by (simp_all add: strip_def)

lemma frame_mark [simp]: "frame b (mark h p b)"
  by (simp add: frame_def mark_def option.map_comp o_def)

lemma frame_unmark [simp]: "frame b (unmark p b)"
  by (simp add: frame_def unmark_def option.map_comp o_def)

lemma frame_set_pcnt: "set_pcnt q v b = Some b' \<Longrightarrow> frame b b'"
  by (auto simp: set_pcnt_def frame_def split: option.splits)

lemma bit_pow2: "bit (2 ^ n :: u32) k \<longleftrightarrow> k = n \<and> n < 32"
  by (auto simp: bit_exp_iff)

lemma bit_32: "bit (32 :: int) k \<longleftrightarrow> k = 5" "bit (32 :: nat) k \<longleftrightarrow> k = 5"
  using bit_exp_iff [of 5 k, where ?'a = int] bit_exp_iff [of 5 k, where ?'a = nat] by auto

lemmas bit_push1 = bit_pow2 bit_32

lemma u32_via_u64 [simp]: "ucast (ucast (v :: u32) :: u64) = v"
  by (rule bit_word_eqI) (simp add: bit_ucast_iff)

lemma cf_mark:
  "h < 32 \<Longrightarrow> cf (mark h p b) x k \<longleftrightarrow> cf b x k \<or> (x = p \<and> b p \<noteq> None \<and> (k = h \<or> k = 5))"
  by (auto simp: cf_def mark_def bit_or_iff bit_push1)

lemma cf_unmark: "cf (unmark p b) x k \<longleftrightarrow> (if x = p \<and> k = 5 then b p \<noteq> None \<and> \<not> cf b p 5 else cf b x k)"
  by (auto simp: cf_def unmark_def bit_xor_iff bit_push1)

lemma cf_set_pcnt: "set_pcnt q v b = Some b' \<Longrightarrow> cf b' x k \<longleftrightarrow> cf b x k"
  by (auto simp: set_pcnt_def cf_def split: option.splits if_splits)

lemma pc_mark: "pc (mark h p b) = pc b"
  by (rule ext) (auto simp: pc_def mark_def option.map_comp o_def)

lemma pc_unmark: "pc (unmark p b) x = (if x = p \<and> b p \<noteq> None then Some 0 else pc b x)"
  by (auto simp: pc_def unmark_def)

lemma pc_set_pcnt: "set_pcnt q v b = Some b' \<Longrightarrow> pc b' x = (if x = q then Some (ucast v) else pc b x)"
  by (auto simp: set_pcnt_def pc_def split: option.splits)

lemma set_pcnt_None: "set_pcnt q v b = None \<longleftrightarrow> b q = None"
  by (simp add: set_pcnt_def split: option.splits)

lemma and_push1: "(c :: u32) AND push_bit 5 1 \<noteq> 0 \<longleftrightarrow> bit c 5"
proof
  assume "c AND push_bit 5 1 \<noteq> 0"
  then obtain n where "bit (c AND push_bit 5 1) n" by (auto simp: bit_eq_iff)
  then show "bit c 5" by (auto simp: bit_and_iff bit_32)
next
  assume "bit c 5"
  then have "bit (c AND push_bit 5 1) 5" by (simp add: bit_and_iff bit_32)
  then show "c AND push_bit 5 1 \<noteq> 0" by (metis bit_0_eq bot_apply bot_bool_def)
qed

subsection \<open>One step of the search\<close>

text \<open>What \<open>mark_walk\<close> does once it has decided to return from \<open>p\<close>, and when it goes on
  from \<open>p\<close> to \<open>q\<close>.\<close>

definition visit :: "nat \<Rightarrow> u32 \<Rightarrow> u32 \<Rightarrow> ('w, 'm, 't) blob \<Rightarrow> (bool \<times> ('w, 'm, 't) blob) exec option" where
  "visit h p q b = (case set_pcnt q p b of None \<Rightarrow> Some Fault | Some b' \<Rightarrow> mark_walk h q b')"

definition back_then :: "nat \<Rightarrow> u32 \<Rightarrow> ('w, 'm, 't) blob \<Rightarrow> (bool \<times> ('w, 'm, 't) blob) exec option" where
  "back_then h p b =
     (case mark_back p b of
        None \<Rightarrow> None
      | Some BFault \<Rightarrow> Some Fault
      | Some (BNext b2) \<Rightarrow> Some (Ret (True, b2))
      | Some (BJump pos2 b2) \<Rightarrow>
          (case b2 pos2 of
             None \<Rightarrow> Some Fault
           | Some e2 \<Rightarrow> visit h pos2 (next_entry pos2 e2) b2))"

lemma mark_upd:
  "b p = Some e \<Longrightarrow> b(p \<mapsto> e\<lparr>comefrom := comefrom e OR (push_bit h 1 OR push_bit 5 1)\<rparr>) = mark h p b"
  by (simp add: mark_def)

lemma unmark_upd:
  "b p = Some e \<Longrightarrow>
     b(p \<mapsto> e\<lparr>comefrom := comefrom e XOR push_bit 5 1, counters := (counters e)\<lparr>pcnt := 0\<rparr>\<rparr>) = unmark p b"
  by (simp add: unmark_def)

lemma walk_None: "b p = None \<Longrightarrow> mark_walk h p b = Some Fault"
  by (subst mark_walk.simps) simp

lemma walk_onp: "onp b p \<Longrightarrow> mark_walk h p b = Some (Ret (False, b))"
  by (subst mark_walk.simps) (auto simp: cf_def and_push1 [simplified] split: option.splits)

lemma walk_entry:
  assumes "b p = Some e" "\<not> onp b p"
  shows "mark_walk h p b =
    (case entry_node p e of
       NEnd \<Rightarrow> back_then h p (mark h p b)
     | NStep q \<Rightarrow> visit h p q (mark h p b)
     | NJump v q \<Rightarrow> visit h p v (mark h p b))"
proof -
  have "comefrom e AND push_bit 5 1 = 0"
    using assms and_push1 [of "comefrom e"] by (auto simp: cf_def)
  then show ?thesis
    by (subst mark_walk.simps)
      (auto simp only: assms(1) option.case if_False mark_upd [of b p e, OF assms(1)] Let_def entry_node_def
        visit_def back_then_def node.case split: if_split)
qed

lemma back_simps:
  assumes "pc b p = Some (ucast q)"
  shows "mark_back p b =
    (if q = p then Some (BNext (unmark p b))
     else case nxt b q of
       None \<Rightarrow> Some BFault
     | Some n \<Rightarrow> if p = n then mark_back q (unmark p b) else Some (BJump q (unmark p b)))"
proof -
  obtain e where e: "b p = Some e" "ucast (pcnt (counters e)) = q"
    using assms by (auto simp: pc_def)
  show ?thesis
  proof (cases "q = p")
    case True
    then show ?thesis
      by (subst mark_back.simps) (simp only: e option.case Let_def unmark_upd refl if_True)
  next
    case False
    then have "unmark p b q = b q" by (simp add: unmark_def)
    with False show ?thesis
      by (subst mark_back.simps, cases "b q")
        (simp_all only: e option.case Let_def unmark_upd if_False nxt_def option.map)
  qed
qed

lemma back_start: "pc b p = Some (ucast p) \<Longrightarrow> back_then h p b = Some (Ret (True, unmark p b))"
  by (simp add: back_then_def back_simps)

lemma back_fall:
  "pc b q = Some (ucast p) \<Longrightarrow> p \<noteq> q \<Longrightarrow> nxt b p = Some q \<Longrightarrow> back_then h q b = back_then h p (unmark q b)"
  by (simp add: back_then_def back_simps)

lemma back_jump:
  assumes "pc b v = Some (ucast p)" "p \<noteq> v" "nxt b p = Some q" "q \<noteq> v"
  shows "back_then h v b = visit h p q (unmark v b)"
proof -
  have "nxt (unmark v b) p = Some q"
    using assms(3) frame_nxt [OF frame_unmark [of b v]] by simp
  then obtain e where "unmark v b p = Some e" "next_entry p e = q" by (auto simp: nxt_def)
  with assms show ?thesis by (simp add: back_then_def back_simps)
qed

subsection \<open>The whole search\<close>

text \<open>The effect of searching everything below \<open>p\<close>, up to the point where \<open>p\<close> is left: the
  path is extended by \<open>p\<close>, the back pointers of the path are intact, all others are as
  before or zero, and the hook bit is set on what \<open>p\<close> reaches.\<close>

definition searched :: "nat \<Rightarrow> u32 \<Rightarrow> ('w, 'm, 't) blob \<Rightarrow> ('w, 'm, 't) blob \<Rightarrow> bool" where
  "searched h p b b' \<longleftrightarrow> frame b b'
     \<and> (\<forall>x. onp b' x \<longleftrightarrow> onp b x \<or> x = p)
     \<and> (\<forall>x. onp b x \<or> x = p \<longrightarrow> pc b' x = pc b x)
     \<and> (\<forall>x. pc b' x = pc b x \<or> pc b' x = Some 0)
     \<and> (\<forall>x k. k \<noteq> 5 \<longrightarrow> cf b' x k \<longleftrightarrow> cf b x k \<or> (k = h \<and> reach (graph b) p x))"

text \<open>The search fails when it runs off the table or meets the path or a cycle; otherwise
  everything below \<open>p\<close> is free of cycles and it returns from \<open>p\<close>.\<close>

definition fails :: "('w, 'm, 't) blob \<Rightarrow> u32 \<Rightarrow> (bool \<times> ('w, 'm, 't) blob) exec option \<Rightarrow> bool" where
  "fails b p r \<longleftrightarrow>
     (r = Some Fault \<and> (\<exists>x. reach (graph b) p x \<and> graph b x = None))
     \<or> ((\<exists>b'. r = Some (Ret (False, b'))) \<and> (\<exists>x. reach (graph b) p x \<and> (onp b x \<or> (edge (graph b))\<^sup>+\<^sup>+ x x)))"

definition outcome :: "nat \<Rightarrow> u32 \<Rightarrow> ('w, 'm, 't) blob \<Rightarrow> (bool \<times> ('w, 'm, 't) blob) exec option \<Rightarrow> bool" where
  "outcome h p b r \<longleftrightarrow>
     fails b p r \<or> (dag (graph b) p \<and> (\<exists>b'. r = back_then h p b' \<and> searched h p b b'))"

lemma fails_edge:
  assumes "fails b' q r" "edge (graph b) p q" "graph b' = graph b" "\<And>x. onp b' x \<longleftrightarrow> onp b x \<or> x = p"
  shows "fails b p r"
proof -
  note * = converse_rtranclp_into_rtranclp [of "edge (graph b)" p q] and cyc = rtranclp_into_tranclp2 [of "edge (graph b)" p q p]
  show ?thesis
    using assms(1) unfolding fails_def assms(3,4)
    using * cyc assms(2) by (elim disjE conjE exE) blast+
qed

lemma fails_same: "fails b' q r \<Longrightarrow> graph b' = graph b \<Longrightarrow> (\<And>x. onp b' x \<longleftrightarrow> onp b x) \<Longrightarrow> fails b q r"
  by (simp add: fails_def)

definition unseen :: "('w, 'm, 't) blob \<Rightarrow> nat" where
  "unseen b = card {x. b x \<noteq> None \<and> \<not> onp b x}"

lemma unseen_less:
  assumes "b p \<noteq> None" "\<not> onp b p" "frame b b'" "\<And>x. onp b' x \<longleftrightarrow> onp b x \<or> x = p"
  shows "unseen b' < unseen b"
  unfolding unseen_def
proof (rule psubset_card_mono)
  show "finite {x. b x \<noteq> None \<and> \<not> onp b x}" by simp
  show "{x. b' x \<noteq> None \<and> \<not> onp b' x} \<subset> {x. b x \<noteq> None \<and> \<not> onp b x}"
    using assms frame_dom [OF assms(3)] by auto
qed

text \<open>Visiting \<open>q\<close> from \<open>p\<close>, whose node is already on the path: the search below \<open>q\<close> either
  ends the whole walk or comes back out of \<open>q\<close>.\<close>

definition left :: "nat \<Rightarrow> u32 \<Rightarrow> ('w, 'm, 't) blob \<Rightarrow> ('w, 'm, 't) blob \<Rightarrow> bool" where
  "left h q b b' \<longleftrightarrow> frame b b'
     \<and> (\<forall>x. onp b' x \<longleftrightarrow> onp b x)
     \<and> (\<forall>x. onp b x \<longrightarrow> pc b' x = pc b x)
     \<and> (\<forall>x. pc b' x = pc b x \<or> pc b' x = Some 0)
     \<and> (\<forall>x k. k \<noteq> 5 \<longrightarrow> cf b' x k \<longleftrightarrow> cf b x k \<or> (k = h \<and> reach (graph b) q x))"

lemma visit_outcome:
  assumes p: "onp b p" and e: "edge (graph b) p q" and n: "nxt b p = Some n"
    and IH: "\<And>b'. frame b b' \<Longrightarrow> (\<And>x. onp b' x \<longleftrightarrow> onp b x) \<Longrightarrow> \<not> onp b' q \<Longrightarrow> b' q \<noteq> None
      \<Longrightarrow> outcome h q b' (mark_walk h q b')"
  shows "fails b q (visit h p q b)
    \<or> (dag (graph b) q \<and> (\<exists>b'. left h q b b'
        \<and> visit h p q b = (if q = n then back_then h p b' else visit h p n b')))"
proof (cases "set_pcnt q p b")
  case None
  then have "graph b q = None" by (simp add: set_pcnt_None graph_def)
  with None show ?thesis by (auto simp: visit_def fails_def)
next
  case (Some b1)
  note f1 = frame_set_pcnt [OF Some] and c1 = cf_set_pcnt [OF Some] and p1 = pc_set_pcnt [OF Some]
  note g1 = frame_graph [OF f1]
  have v: "visit h p q b = mark_walk h q b1" by (simp add: visit_def Some)
  show ?thesis
  proof (cases "onp b q")
    case True
    then show ?thesis using walk_onp [of b1 q h] by (auto simp: v c1 fails_def)
  next
    case False
    have "b1 q \<noteq> None" using Some by (auto simp: set_pcnt_def split: option.splits)
    with IH [OF f1 c1] False have o: "outcome h q b1 (mark_walk h q b1)" by (simp add: c1)
    have pq: "p \<noteq> q" using p False by auto
    have key: "left h q b (unmark q b2) \<and> back_then h q b2 = (if q = n then back_then h p (unmark q b2)
        else visit h p n (unmark q b2))" if s: "searched h q b1 b2" for b2
    proof
      have f2: "frame b b2" and pc2: "pc b2 q = Some (ucast p)"
        using s frame_trans [OF f1] by (auto simp: searched_def p1)
      have "b2 q \<noteq> None" using pc2 by (auto simp: pc_def)
      moreover have "pc b2 x = pc b x \<or> pc b2 x = Some 0" if "x \<noteq> q" for x
        using s that p1 [of x] unfolding searched_def by metis
      ultimately show "left h q b (unmark q b2)"
        using s f2 False frame_trans [OF f2 frame_unmark [of b2 q]]
        by (auto simp: searched_def left_def cf_unmark pc_unmark c1 p1 g1)
      show "back_then h q b2 = (if q = n then back_then h p (unmark q b2)
        else visit h p n (unmark q b2))"
        using pc2 pq n frame_nxt [OF f2] by (auto simp: back_fall back_jump)
    qed
    from o show ?thesis
      unfolding outcome_def g1
    proof (elim disjE conjE exE)
      assume "fails b1 q (mark_walk h q b1)"
      then show ?thesis using fails_same [OF _ g1 c1] by (simp add: v)
    next
      fix b2
      assume "dag (graph b) q" "mark_walk h q b1 = back_then h q b2" "searched h q b1 b2"
      with key [of b2] show ?thesis unfolding v by (intro disjI2) metis
    qed
  qed
qed

lemma left_same:
  assumes "left h q b b1"
  shows "frame b b1" "graph b1 = graph b" "nxt b1 = nxt b" "onp b1 x \<longleftrightarrow> onp b x"
  using assms frame_graph frame_nxt by (auto simp: left_def)

lemma left_trans:
  assumes "left h v b b1" "left h q b1 b2"
  shows "frame b b2" "onp b2 x \<longleftrightarrow> onp b x" "onp b x \<Longrightarrow> pc b2 x = pc b x"
    "pc b2 x = pc b x \<or> pc b2 x = Some 0"
    "k \<noteq> 5 \<Longrightarrow> cf b2 x k \<longleftrightarrow> cf b x k \<or> (k = h \<and> (reach (graph b) v x \<or> reach (graph b) q x))"
proof -
  have g: "graph b1 = graph b" by (rule left_same(2) [OF assms(1)])
  show "frame b b2" using assms frame_trans by (auto simp: left_def)
  show "onp b2 x \<longleftrightarrow> onp b x" using assms by (simp add: left_def)
  show "pc b2 x = pc b x" if "onp b x" using assms that by (simp add: left_def)
  show "pc b2 x = pc b x \<or> pc b2 x = Some 0" using assms unfolding left_def by metis
  show "cf b2 x k \<longleftrightarrow> cf b x k \<or> (k = h \<and> (reach (graph b) v x \<or> reach (graph b) q x))" if "k \<noteq> 5"
    using assms that by (auto simp: left_def g)
qed

text \<open>The induction step, by the kind of node.\<close>

lemma mark_facts:
  assumes "h < 5" "b p \<noteq> None"
  shows "graph (mark h p b) = graph b" "nxt (mark h p b) = nxt b"
    "cf (mark h p b) x k \<longleftrightarrow> cf b x k \<or> (x = p \<and> (k = h \<or> k = 5))"
  using assms by (simp_all add: frame_graph frame_nxt cf_mark)

lemma outcome_Step:
  assumes h: "h < 5" and p: "b p \<noteq> None" and G: "graph b p = Some (NStep q)" and q: "nxt b p = Some q"
    and IH: "\<And>b' q. frame (mark h p b) b' \<Longrightarrow> (\<And>x. onp b' x \<longleftrightarrow> onp (mark h p b) x) \<Longrightarrow> \<not> onp b' q
      \<Longrightarrow> b' q \<noteq> None \<Longrightarrow> outcome h q b' (mark_walk h q b')"
  shows "outcome h p b (visit h p q (mark h p b))"
proof -
  let ?b1 = "mark h p b"
  note m = mark_facts [of h b p, OF h p]
  have E: "edge (graph b) p q" using edge_Step [of "graph b", OF G] .
  have "fails ?b1 q (visit h p q ?b1) \<or> (dag (graph b) q \<and> (\<exists>b2. left h q ?b1 b2
      \<and> visit h p q ?b1 = back_then h p b2))"
    using visit_outcome [of ?b1 p q q h] IH E q by (simp add: m)
  then show ?thesis
  proof (elim disjE conjE exE)
    assume "fails ?b1 q (visit h p q ?b1)"
    then show ?thesis using fails_edge [OF _ E m(1)] m(3) by (simp add: outcome_def)
  next
    fix b2 assume *: "dag (graph b) q" "left h q ?b1 b2" "visit h p q ?b1 = back_then h p b2"
    have "searched h p b b2"
      using *(2) frame_trans [OF frame_mark [of b h p]] reach_node(2) [of "graph b", OF G]
      by (auto simp: left_def searched_def m pc_mark)
    with * show ?thesis using dag_Step [of "graph b", OF G] by (auto simp: outcome_def)
  qed
qed

lemma outcome_Jump:
  assumes h: "h < 5" and p: "b p \<noteq> None" and G: "graph b p = Some (NJump v q)" and q: "nxt b p = Some q"
    and vq: "v \<noteq> q"
    and IH: "\<And>b' q. frame (mark h p b) b' \<Longrightarrow> (\<And>x. onp b' x \<longleftrightarrow> onp (mark h p b) x) \<Longrightarrow> \<not> onp b' q
      \<Longrightarrow> b' q \<noteq> None \<Longrightarrow> outcome h q b' (mark_walk h q b')"
  shows "outcome h p b (visit h p v (mark h p b))"
proof -
  let ?b1 = "mark h p b"
  note m = mark_facts [of h b p, OF h p]
  have E: "edge (graph b) p v" "edge (graph b) p q"
    using edge_Jump [of "graph b", OF G] edge_Next [of "graph b", OF G] by auto
  have "fails ?b1 v (visit h p v ?b1) \<or> (dag (graph b) v \<and> (\<exists>b2. left h v ?b1 b2
      \<and> visit h p v ?b1 = visit h p q b2))"
    using visit_outcome [of ?b1 p v q h] IH E q vq by (simp add: m)
  then show ?thesis
  proof (elim disjE conjE exE)
    assume "fails ?b1 v (visit h p v ?b1)"
    then show ?thesis using fails_edge [OF _ E(1) m(1)] m(3) by (simp add: outcome_def)
  next
    fix b2 assume v: "dag (graph b) v" "left h v ?b1 b2" "visit h p v ?b1 = visit h p q b2"
    note s = left_same [OF v(2)]
    have g2: "graph b2 = graph b" and o2: "onp b2 x \<longleftrightarrow> onp b x \<or> x = p" for x
      using s(2,4) by (simp_all add: m)
    have "fails b2 q (visit h p q b2) \<or> (dag (graph b) q \<and> (\<exists>b3. left h q b2 b3
        \<and> visit h p q b2 = back_then h p b3))"
      using visit_outcome [of b2 p q q h] IH frame_trans [OF s(1)] E q s(3,4) by (simp add: m g2)
    then show ?thesis
    proof (elim disjE conjE exE)
      assume "fails b2 q (visit h p q b2)"
      then show ?thesis using fails_edge [OF _ E(2) g2 o2] by (simp add: outcome_def v(3))
    next
      fix b3 assume *: "dag (graph b) q" "left h q b2 b3" "visit h p q b2 = back_then h p b3"
      note t = left_trans [OF v(2) *(2), unfolded m]
      have "searched h p b b3"
        using t frame_trans [OF frame_mark [of b h p] t(1)] reach_node(3) [of "graph b", OF G]
        by (auto simp: searched_def pc_mark)
      with v * show ?thesis using dag_Jump [of "graph b", OF G] by (auto simp: outcome_def)
    qed
  qed
qed

lemma walk_outcome:
  assumes "h < 5" "b p \<noteq> None" "\<not> onp b p"
  shows "outcome h p b (mark_walk h p b)"
  using assms(2,3)
proof (induction "unseen b" arbitrary: b p rule: less_induct)
  case less
  obtain e where e: "b p = Some e" using less.prems by auto
  let ?b1 = "mark h p b"
  note m = mark_facts [of h b p, OF \<open>h < 5\<close> less.prems(1)]
  have IH: "outcome h q b' (mark_walk h q b')"
    if "frame ?b1 b'" "\<And>x. onp b' x \<longleftrightarrow> onp ?b1 x" "\<not> onp b' q" "b' q \<noteq> None" for q b'
    using that less.prems unseen_less [of b p b'] frame_trans [OF frame_mark [of b h p]]
    by (intro less.hyps) (auto simp: m)
  have pn: "nxt b p = Some (next_entry p e)" "graph b p = Some (entry_node p e)"
    by (simp_all add: nxt_def graph_def e)
  note w = walk_entry [OF e \<open>\<not> onp b p\<close>, of h]
  show ?case
  proof (cases "entry_node p e")
    case NEnd
    with pn(2) have "searched h p b ?b1"
      using \<open>h < 5\<close> by (auto simp: searched_def m pc_mark reach_node)
    with NEnd show ?thesis using pn(2) by (auto simp: outcome_def w intro: dag_End)
  next
    case (NStep q)
    then have "graph b p = Some (NStep q)" "nxt b p = Some q"
      using pn by (auto simp: entry_node_def split: if_splits)
    then have "outcome h p b (visit h p q ?b1)"
      by (rule outcome_Step [of h b p q, OF \<open>h < 5\<close> less.prems(1)]) (rule IH)
    with NStep show ?thesis by (simp add: w)
  next
    case (NJump v q)
    then have "graph b p = Some (NJump v q)" "nxt b p = Some q" "v \<noteq> q"
      using pn by (auto simp: entry_node_def split: if_splits)
    then have "outcome h p b (visit h p v ?b1)"
      by (rule outcome_Jump [of h b p v q, OF \<open>h < 5\<close> less.prems(1)]) (rule IH)
    with NJump show ?thesis by (simp add: w)
  qed
qed

subsection \<open>All hooks\<close>

text \<open>A table as \<open>check_entry_size_and_hooks\<close> leaves it: no rule is on a path.\<close>

definition clear :: "('w, 'm, 't) blob \<Rightarrow> bool" where
  "clear b \<longleftrightarrow> (\<forall>x. \<not> onp b x \<and> (pc b x = None \<or> pc b x = Some 0))"

lemma walk_hook:
  assumes h: "h < 5" and c: "clear b" and s: "set_pcnt p p b = Some b1"
  shows "(fails b p (mark_walk h p b1)) \<or> (dag (graph b) p \<and> (\<exists>b2. mark_walk h p b1 = Some (Ret (True, b2))
    \<and> frame b b2 \<and> clear b2
    \<and> (\<forall>x k. k \<noteq> 5 \<longrightarrow> cf b2 x k \<longleftrightarrow> cf b x k \<or> (k = h \<and> reach (graph b) p x))))"
proof -
  note f1 = frame_set_pcnt [OF s] and c1 = cf_set_pcnt [OF s] and p1 = pc_set_pcnt [OF s]
  note g1 = frame_graph [OF f1]
  have p: "b1 p \<noteq> None" using s by (auto simp: set_pcnt_def split: option.splits)
  have "outcome h p b1 (mark_walk h p b1)"
    using walk_outcome [of h b1 p, OF h p] c by (simp add: c1 clear_def)
  then show ?thesis
    unfolding outcome_def g1
  proof (elim disjE conjE exE)
    assume "fails b1 p (mark_walk h p b1)"
    then show ?thesis using fails_same [OF _ g1 c1] by simp
  next
    fix b2 assume *: "dag (graph b) p" "mark_walk h p b1 = back_then h p b2" "searched h p b1 b2"
    have p2: "pc b2 p = Some (ucast p)" using *(3) by (simp add: searched_def p1)
    then have r: "mark_walk h p b1 = Some (Ret (True, unmark p b2))" using *(2) by (simp add: back_start)
    have n: "b2 p \<noteq> None" using p2 by (auto simp: pc_def)
    have f: "frame b (unmark p b2)"
      using *(3) f1 by (auto simp: searched_def intro: frame_trans [OF _ frame_unmark] frame_trans)
    have "pc (unmark p b2) x = None \<or> pc (unmark p b2) x = Some 0" for x
      using *(3) c p1 [of x] n unfolding searched_def clear_def pc_unmark by metis
    then have "clear (unmark p b2)"
      using *(3) c n by (auto simp: clear_def cf_unmark searched_def c1)
    moreover have "\<forall>x k. k \<noteq> 5 \<longrightarrow> cf (unmark p b2) x k \<longleftrightarrow> cf b x k \<or> (k = h \<and> reach (graph b) p x)"
      using *(3) by (auto simp: searched_def cf_unmark c1 g1)
    ultimately show ?thesis using r f *(1) by blast
  qed
qed

text \<open>The hooks that are searched.\<close>

definition valid_hook :: "u32 \<Rightarrow> nat \<Rightarrow> bool" where
  "valid_hook valid_hooks h \<longleftrightarrow> valid_hooks AND push_bit h 1 \<noteq> 0"

definition hooks_of :: "u32 \<Rightarrow> nat list \<Rightarrow> nat set" where
  "hooks_of vh hs = {h \<in> set hs. valid_hook vh h}"

lemma hooks_of_simps [simp]:
  "hooks_of vh [] = {}"
  "hooks_of vh (h # hs) = (if valid_hook vh h then insert h (hooks_of vh hs) else hooks_of vh hs)"
  by (auto simp: hooks_of_def)

text \<open>The marks that a completed search of the hooks \<open>H\<close> leaves behind.\<close>

definition marked :: "nat set \<Rightarrow> (nat \<Rightarrow> u32) \<Rightarrow> ('w, 'm, 't) blob \<Rightarrow> ('w, 'm, 't) blob \<Rightarrow> bool" where
  "marked H he b b' \<longleftrightarrow> frame b b' \<and> clear b'
     \<and> (\<forall>x k. k \<noteq> 5 \<longrightarrow> cf b' x k \<longleftrightarrow> cf b x k \<or> (k \<in> H \<and> reach (graph b) (he k) x))"

lemma marked_insert:
  assumes "marked {h} he b b1" "marked H he b1 b2"
  shows "marked (insert h H) he b b2"
proof -
  have "graph b1 = graph b" using assms(1) frame_graph by (auto simp: marked_def)
  with assms show ?thesis using frame_trans by (auto simp: marked_def)
qed

lemma mark_hooks_outcome:
  fixes b :: "('w, 'm, 't) blob"
  assumes "clear b" "\<forall>h \<in> set hs. h < 5"
  shows "(\<exists>h \<in> hooks_of vh hs. fails b (he h) (mark_hooks hs he vh b))
    \<or> ((\<forall>h \<in> hooks_of vh hs. dag (graph b) (he h))
       \<and> (\<exists>b'. mark_hooks hs he vh b = Some (Ret (True, b')) \<and> marked (hooks_of vh hs) he b b'))"
  using assms
proof (induction hs arbitrary: b)
  case Nil
  then show ?case by (auto simp: marked_def)
next
  case (Cons h hs)
  have IH: "(\<exists>h \<in> hooks_of vh hs. fails b (he h) (mark_hooks hs he vh b))
    \<or> ((\<forall>h \<in> hooks_of vh hs. dag (graph b) (he h))
       \<and> (\<exists>b'. mark_hooks hs he vh b = Some (Ret (True, b')) \<and> marked (hooks_of vh hs) he b b'))"
    if "clear b" for b :: "('w, 'm, 't) blob" using Cons.IH [OF that] Cons.prems(2) by simp
  consider "\<not> valid_hook vh h" | "valid_hook vh h" "set_pcnt (he h) (he h) b = None"
    | b1 where "valid_hook vh h" "set_pcnt (he h) (he h) b = Some b1" by fastforce
  then show ?case
  proof cases
    case 1
    then show ?thesis using IH [OF Cons.prems(1)] by (simp add: valid_hook_def)
  next
    case 2
    then have "graph b (he h) = None" by (simp add: set_pcnt_None graph_def)
    with 2 have "fails b (he h) (mark_hooks (h # hs) he vh b)"
      by (auto simp: fails_def valid_hook_def)
    with 2 show ?thesis by auto
  next
    case 3
    then have r: "mark_hooks (h # hs) he vh b = (case mark_walk h (he h) b1 of None \<Rightarrow> None
        | Some Fault \<Rightarrow> Some Fault | Some (Ret (False, b2)) \<Rightarrow> Some (Ret (False, b2))
        | Some (Ret (True, b2)) \<Rightarrow> mark_hooks hs he vh b2)"
      by (simp add: valid_hook_def)
    from Cons.prems have "h < 5" by simp
    from walk_hook [OF this Cons.prems(1) 3(2)] show ?thesis
    proof (elim disjE conjE exE)
      assume "fails b (he h) (mark_walk h (he h) b1)"
      then have "fails b (he h) (mark_hooks (h # hs) he vh b)" unfolding r fails_def by auto
      with 3(1) show ?thesis unfolding hooks_of_simps by auto
    next
      fix b2
      assume d: "dag (graph b) (he h)" and w: "mark_walk h (he h) b1 = Some (Ret (True, b2))"
        and f: "frame b b2" and c: "clear b2"
        and k: "\<forall>x k. k \<noteq> 5 \<longrightarrow> cf b2 x k \<longleftrightarrow> cf b x k \<or> (k = h \<and> reach (graph b) (he h) x)"
      have m: "marked {h} he b b2" using f c k by (auto simp: marked_def)
      have g: "graph b2 = graph b" using frame_graph [OF f] .
      have "onp b2 x \<longleftrightarrow> onp b x" for x using c Cons.prems(1) by (simp add: clear_def)
      then have fl: "fails b2 p r' \<Longrightarrow> fails b p r'" for p r' using fails_same [OF _ g] by blast
      have e: "mark_hooks (h # hs) he vh b = mark_hooks hs he vh b2" by (simp add: r w del: mark_hooks.simps)
      from IH [OF c, unfolded g] show ?thesis
      proof (elim disjE bexE conjE exE)
        fix k assume "k \<in> hooks_of vh hs" "fails b2 (he k) (mark_hooks hs he vh b2)"
        with fl 3(1) show ?thesis unfolding e by auto
      next
        fix b3 assume "mark_hooks hs he vh b2 = Some (Ret (True, b3))" "marked (hooks_of vh hs) he b2 b3"
          "\<forall>h \<in> hooks_of vh hs. dag (graph b) (he h)"
        with d 3(1) marked_insert [OF m] show ?thesis unfolding e by auto
      qed
    qed
  qed
qed

subsection \<open>The result of mark_source_chains\<close>

text \<open>\<open>check_entry_size_and_hooks\<close> has cleared every entry.\<close>

definition cleared :: "('w, 'm, 't) blob \<Rightarrow> bool" where
  "cleared b \<longleftrightarrow> (\<forall>x e. b x = Some e \<longrightarrow> comefrom e = 0 \<and> pcnt (counters e) = 0)"

lemma cleared_clear: "cleared b \<Longrightarrow> clear b"
  by (auto simp: cleared_def clear_def cf_def pc_def)

lemma cleared_cf: "cleared b \<Longrightarrow> \<not> cf b x k"
  by (auto simp: cleared_def cf_def)

definition msc_hooks :: "u32 \<Rightarrow> nat set" where
  "msc_hooks vh = {h. h < NF_IP_NUMHOOKS \<and> valid_hook vh h}"

lemma hooks_of_all: "hooks_of vh [0..<5] = msc_hooks vh"
  by (auto simp: hooks_of_def msc_hooks_def)

lemma mark_source_chains_outcome:
  assumes "cleared (entries info)"
  shows "(\<exists>h \<in> msc_hooks vh. fails (entries info) (hook_entry info h) (mark_source_chains info vh))
    \<or> ((\<forall>h \<in> msc_hooks vh. dag (graph (entries info)) (hook_entry info h))
       \<and> (\<exists>b'. mark_source_chains info vh = Some (Ret (True, b'))
          \<and> marked (msc_hooks vh) (hook_entry info) (entries info) b'))"
  using mark_hooks_outcome [of "entries info" "[0..<5]" vh "hook_entry info"] cleared_clear [OF assms]
  unfolding mark_source_chains_def hooks_of_all by auto

lemma mark_source_chains_True:
  assumes "cleared (entries info)" "mark_source_chains info vh = Some (Ret (True, b'))"
  shows "h \<in> msc_hooks vh \<Longrightarrow> dag (graph (entries info)) (hook_entry info h)"
    "marked (msc_hooks vh) (hook_entry info) (entries info) b'"
  using mark_source_chains_outcome [OF assms(1), of vh] assms(2) by (auto simp: fails_def)

text \<open>C1: On a cleared table in which every rule reachable from a valid hook exists,
  \<open>mark_source_chains\<close> always returns, and it returns success exactly when no rule
  reachable from a valid hook lies on a cycle of jumps and fall-throughs.\<close>

theorem mark_source_chains_decides:
  assumes "cleared (entries info)"
    and "\<forall>h x. h \<in> msc_hooks vh \<longrightarrow> reach (graph (entries info)) (hook_entry info h) x
      \<longrightarrow> entries info x \<noteq> None"
  shows "\<exists>ok b'. mark_source_chains info vh = Some (Ret (ok, b'))
    \<and> (ok \<longleftrightarrow> (\<forall>h x. h \<in> msc_hooks vh \<longrightarrow> reach (graph (entries info)) (hook_entry info h) x
        \<longrightarrow> \<not> (edge (graph (entries info)))\<^sup>+\<^sup>+ x x))"
  using mark_source_chains_outcome [OF assms(1), of vh]
proof (elim disjE bexE conjE exE)
  fix h assume h: "h \<in> msc_hooks vh" "fails (entries info) (hook_entry info h) (mark_source_chains info vh)"
  have "\<not> onp (entries info) x" for x using cleared_cf [OF assms(1)] by blast
  moreover have "graph (entries info) x \<noteq> None" if "reach (graph (entries info)) (hook_entry info h) x" for x
    using assms(2) h(1) that by (auto simp: graph_def)
  ultimately show ?thesis using h unfolding fails_def by blast
next
  fix b' assume "mark_source_chains info vh = Some (Ret (True, b'))"
    and "\<forall>h \<in> msc_hooks vh. dag (graph (entries info)) (hook_entry info h)"
  then show ?thesis using dag_reach dag_no_cycle by blast
qed

lemma sample_graph:
  "graph sample_blob 0 = Some (NJump 592 148)" "graph sample_blob 148 = Some NEnd"
  "graph sample_blob 296 = Some NEnd" "graph sample_blob 444 = Some NEnd"
  "graph sample_blob 592 = Some (NStep 740)" "graph sample_blob 740 = Some NEnd"
  "graph sample_blob 888 = Some (NStep 1064)"
  by code_simp+

lemma sample_cleared: "cleared (entries sample_info)"
  by (auto simp: cleared_def sample_defs split: if_splits)

lemma sample_reach:
  assumes "reach (graph sample_blob) p x" "p \<in> {0, 148, 296, 444, 592, 740}"
  shows "x \<in> {0, 148, 296, 444, 592, 740}"
  using assms
proof (induction rule: rtranclp_induct)
  case (step y z)
  then show ?case by (auto simp: edge.simps sample_graph)
qed

lemma sample_hooks_of: "h \<in> msc_hooks 0x0E \<Longrightarrow> h = 1 \<or> h = 2 \<or> h = 3"
  by (cases "h = 0"; cases "h = 4") (auto simp: msc_hooks_def valid_hook_def)

lemma sample_closed:
  "\<forall>h x. h \<in> msc_hooks 0x0E \<longrightarrow> reach (graph (entries sample_info)) (hook_entry sample_info h) x
     \<longrightarrow> entries sample_info x \<noteq> None"
proof (intro allI impI)
  fix h x
  assume h: "h \<in> msc_hooks 0x0E" and r: "reach (graph (entries sample_info)) (hook_entry sample_info h) x"
  have e: "entries sample_info = sample_blob" by (simp add: sample_info_def)
  have "hook_entry sample_info h \<in> {0, 148, 296, 444, 592, 740}"
    using sample_hooks_of [OF h] by (auto simp: sample_info_def sample_hooks_def)
  then have "x \<in> {0, 148, 296, 444, 592, 740}" by (rule sample_reach [OF r [unfolded e]])
  then have "x \<in> dom sample_blob" by (auto simp: sample_dom)
  then show "entries sample_info x \<noteq> None" unfolding e by blast
qed

theorem mark_source_chains_decides_witness:
  "cleared (entries sample_info)
   \<and> (\<exists>ok b'. mark_source_chains sample_info 0x0E = Some (Ret (ok, b'))
      \<and> (ok \<longleftrightarrow> (\<forall>h x. h \<in> msc_hooks 0x0E \<longrightarrow> reach (graph (entries sample_info)) (hook_entry sample_info h) x
          \<longrightarrow> \<not> (edge (graph (entries sample_info)))\<^sup>+\<^sup>+ x x)))"
  using mark_source_chains_decides [OF sample_cleared sample_closed] sample_cleared by blast

text \<open>C5: When \<open>mark_source_chains\<close> accepts a cleared table, it leaves every packet counter at
  zero, sets bit \<open>k\<close> of \<open>comefrom\<close> exactly on the rules reachable from the valid hook
  \<open>k\<close>, and changes nothing else.\<close>

theorem mark_source_chains_marks:
  assumes "cleared (entries info)" "mark_source_chains info vh = Some (Ret (True, b'))"
  shows "\<forall>x. map_option strip (b' x) = map_option strip (entries info x)
    \<and> (\<forall>e. b' x = Some e \<longrightarrow> pcnt (counters e) = 0 \<and> (\<forall>k. bit (comefrom e) k \<longleftrightarrow>
          k \<in> msc_hooks vh \<and> reach (graph (entries info)) (hook_entry info k) x))"
proof (intro allI conjI impI)
  fix x e k
  have m: "marked (msc_hooks vh) (hook_entry info) (entries info) b'"
    by (rule mark_source_chains_True [OF assms])
  show "map_option strip (b' x) = map_option strip (entries info x)"
    using m by (simp add: marked_def frame_def)
  assume e: "b' x = Some e"
  show "pcnt (counters e) = 0"
    using m e by (auto simp: marked_def clear_def pc_def) (metis option.distinct(1) option.sel)
  show "bit (comefrom e) k \<longleftrightarrow> k \<in> msc_hooks vh \<and> reach (graph (entries info)) (hook_entry info k) x"
  proof (cases "k = 5")
    case True
    have "\<not> cf b' x 5" using m by (simp add: marked_def clear_def)
    with e True show ?thesis by (simp add: cf_def msc_hooks_def)
  next
    case False
    have "cf b' x k \<longleftrightarrow> k \<in> msc_hooks vh \<and> reach (graph (entries info)) (hook_entry info k) x"
      using m False cleared_cf [OF assms(1)] by (simp add: marked_def)
    with e show ?thesis by (simp add: cf_def)
  qed
qed

lemma ret_ok_iff: "ret_ok r \<longleftrightarrow> (\<exists>b. r = Some (Ret (True, b)))"
  by (cases r rule: ret_ok.cases) auto

theorem mark_source_chains_marks_witness:
  "\<exists>b'. mark_source_chains sample_info 0x0E = Some (Ret (True, b'))
    \<and> (\<forall>x. map_option strip (b' x) = map_option strip (entries sample_info x)
      \<and> (\<forall>e. b' x = Some e \<longrightarrow> pcnt (counters e) = 0 \<and> (\<forall>k. bit (comefrom e) k \<longleftrightarrow>
          k \<in> msc_hooks 0x0E \<and> reach (graph (entries sample_info)) (hook_entry sample_info k) x)))"
proof -
  obtain b' where b': "mark_source_chains sample_info 0x0E = Some (Ret (True, b'))"
    using sample_marks by (auto simp: ret_ok_iff)
  then show ?thesis using mark_source_chains_marks [OF sample_cleared b'] by blast
qed

end
