(* ===== verification/Do_Table.thy ===== *)
theory Do_Table
  imports Mark_Chains
begin

section \<open>The traversal implements the chain semantics\<close>

text \<open>
  The reference semantics of a table: chains are called and return like procedures
  (\<open>chain_run\<close>), with no return stack in the rules. \<open>ipt_do_table\<close> keeps that stack in the
  \<open>comefrom\<close> fields. On a table that \<open>mark_source_chains\<close> accepts, whose entries do not
  overlap and whose underflow rule is an unconditional absolute verdict, the traversal always
  ends, never faults and gives the result of the reference semantics.
\<close>

subsection \<open>Reference semantics\<close>

text \<open>What one rule does to the packet.\<close>

datatype ('w, 'm, 't) rule_result =
    RFault
  | RVerdict u32 "('w, 'm, 't) trav"
  | RReturn "('w, 'm, 't) trav"
  | RNext u32 "('w, 'm, 't) trav"
  | RCall u32 u32 "('w, 'm, 't) trav"

definition rule_target :: "nat \<Rightarrow> netdev option \<Rightarrow> netdev option \<Rightarrow> u32 \<Rightarrow> ('w, 'm, 't) ipt_entry
    \<Rightarrow> ('w, 'm, 't) trav \<Rightarrow> ('w, 'm, 't) rule_result" where
  "rule_target hook inn out e ent s =
     (case target_u (target ent) of
        TUser n r \<Rightarrow> RFault
      | TKernel t \<Rightarrow>
          (case xt_target t of
             None \<Rightarrow>
               (let v = verdict (target ent) in
                if sint v < 0 then if v \<noteq> IPT_RETURN then RVerdict (- v - 1) s else RReturn s
                else if v \<noteq> next_entry e ent \<and> flags (ip ent) AND IPT_F_GOTO = 0
                then RCall v (next_entry e ent) s
                else RNext v s)
           | Some f \<Rightarrow>
               (case f (tr_world s) (tr_skb s) inn out hook (target_data (target ent)) of
                  (vd, skb', w') \<Rightarrow>
                    if vd = XT_CONTINUE then RNext (next_entry e ent) (s\<lparr>tr_skb := skb', tr_world := w'\<rparr>)
                    else RVerdict vd (s\<lparr>tr_skb := skb', tr_world := w'\<rparr>))))"

definition rule_run :: "nat \<Rightarrow> netdev option \<Rightarrow> netdev option \<Rightarrow> u16 \<Rightarrow> u32
    \<Rightarrow> ('w, 'm, 't) trav \<Rightarrow> ('w, 'm, 't) rule_result" where
  "rule_run hook inn out offset e s =
     (case tr_blob s e of
        None \<Rightarrow> RFault
      | Some ent \<Rightarrow>
        if ip_packet_match (skb_data (tr_skb s)) (devname inn) (devname out) (ip ent) (offset \<noteq> 0)
        then
          (case match_iterate (do_match (tr_skb s) inn out offset) sizeof_ipt_entry
                  (unat (target_offset ent)) (matches ent) (tr_hotdrop s, tr_world s) of
             (r, ms, hotd, w) \<Rightarrow>
               if r \<noteq> 0 then RNext (next_entry e ent) (s\<lparr>tr_hotdrop := hotd, tr_world := w\<rparr>)
               else rule_target hook inn out e ent
                      (s\<lparr>tr_hotdrop := hotd, tr_world := w,
                         tr_blob := (tr_blob s)(e \<mapsto> ent\<lparr>counters := add_counter (counters ent)
                           (ucast (ntohs (iph_tot_len (skb_data (tr_skb s))))) 1\<rparr>)\<rparr>))
        else RNext (next_entry e ent) s)"

datatype ('w, 'm, 't) chain_result =
    CFault
  | CVerdict u32 "('w, 'm, 't) trav"
  | CReturn "('w, 'm, 't) trav"

definition chain_then :: "('w, 'm, 't) chain_result option \<Rightarrow> (('w, 'm, 't) trav \<Rightarrow> ('w, 'm, 't) chain_result option)
    \<Rightarrow> ('w, 'm, 't) chain_result option" where
  "chain_then r k = Option.bind r (\<lambda>r. case r of CReturn s \<Rightarrow> k s | _ \<Rightarrow> Some r)"

lemma chain_then_mono [partial_function_mono]:
  assumes "mono_option f" "\<And>s. mono_option (\<lambda>rec. k rec s)"
  shows "mono_option (\<lambda>rec. chain_then (f rec) (k rec))"
  unfolding chain_then_def
proof (rule bind_mono [OF assms(1)])
  fix r
  show "mono_option (\<lambda>rec. case r of CReturn s \<Rightarrow> k rec s | _ \<Rightarrow> Some r)"
    by (cases r) (auto intro: option.const_mono assms(2))
qed

partial_function (option) chain_run :: "nat \<Rightarrow> netdev option \<Rightarrow> netdev option \<Rightarrow> u16 \<Rightarrow> u32
    \<Rightarrow> ('w, 'm, 't) trav \<Rightarrow> ('w, 'm, 't) chain_result option" where
  "chain_run hook inn out offset e s =
     (case rule_run hook inn out offset e s of
        RFault \<Rightarrow> Some CFault
      | RVerdict vd s' \<Rightarrow> Some (CVerdict (if tr_hotdrop s' then NF_DROP else vd) s')
      | RReturn s' \<Rightarrow> if tr_hotdrop s' then Some (CVerdict NF_DROP s') else Some (CReturn s')
      | RNext q s' \<Rightarrow> if tr_hotdrop s' then Some (CVerdict NF_DROP s')
                      else chain_run hook inn out offset q s'
      | RCall v q s' \<Rightarrow> if tr_hotdrop s' then Some (CVerdict NF_DROP s')
                        else chain_then (chain_run hook inn out offset v s')
                               (\<lambda>s''. chain_run hook inn out offset q s''))"

text \<open>A built-in chain that returns takes its policy, the underflow rule.\<close>

definition table_run :: "nat \<Rightarrow> netdev option \<Rightarrow> netdev option \<Rightarrow> u16 \<Rightarrow> u32 \<Rightarrow> u32
    \<Rightarrow> ('w, 'm, 't) trav \<Rightarrow> ('w, 'm, 't) chain_result option" where
  "table_run hook inn out offset e u s =
     chain_then (chain_run hook inn out offset e s) (\<lambda>s'. chain_run hook inn out offset u s')"

subsection \<open>One pass against one rule\<close>

lemma pass_rule:
  "do_table_pass hook inn out offset e back s =
     (case rule_run hook inn out offset e s of
        RFault \<Rightarrow> PFault
      | RVerdict vd s' \<Rightarrow> PBreak vd s'
      | RReturn s' \<Rightarrow> (case tr_blob s' back of None \<Rightarrow> PFault | Some be \<Rightarrow> PGo back (comefrom be) s')
      | RNext q s' \<Rightarrow> PGo q back s'
      | RCall v q s' \<Rightarrow> (case tr_blob s' q of None \<Rightarrow> PFault
          | Some ne \<Rightarrow> PGo v q (s'\<lparr>tr_blob := (tr_blob s')(q \<mapsto> ne\<lparr>comefrom := back\<rparr>)\<rparr>)))"
proof (cases "tr_blob s e")
  case None
  then show ?thesis by (simp add: do_table_pass_def rule_run_def)
next
  case ent: (Some ent)
  show ?thesis
  proof (cases "ip_packet_match (skb_data (tr_skb s)) (devname inn) (devname out) (ip ent) (offset \<noteq> 0)")
    case False
    with ent show ?thesis by (simp add: do_table_pass_def rule_run_def)
  next
    case True
    obtain r ms hotd w where mi: "match_iterate (do_match (tr_skb s) inn out offset) sizeof_ipt_entry
        (unat (target_offset ent)) (matches ent) (tr_hotdrop s, tr_world s) = (r, ms, hotd, w)"
      by (metis prod_cases4)
    note d = do_table_pass_def [of hook inn out offset e "back" s, unfolded ent option.case mi prod.case]
      and rr = rule_run_def [of hook inn out offset e s, unfolded ent option.case mi prod.case]
    show ?thesis
    proof (cases "r = 0")
      case False
      with True show ?thesis by (simp add: d rr)
    next
      case r: True
      show ?thesis
      proof (cases "target_u (target ent)")
        case (TUser n k)
        with True r show ?thesis by (simp add: d rr rule_target_def)
      next
        case (TKernel t)
        with True r show ?thesis
          by (cases "xt_target t") (auto simp: d rr rule_target_def Let_def split: prod.split option.split)
      qed
    qed
  qed
qed

text \<open>Forgetting the return stack.\<close>

definition uncome :: "('w, 'm, 't) ipt_entry \<Rightarrow> ('w, 'm, 't) ipt_entry" where
  "uncome e = e\<lparr>comefrom := 0\<rparr>"

definition forget :: "('w, 'm, 't) trav \<Rightarrow> ('w, 'm, 't) trav" where
  "forget s = s\<lparr>tr_blob := (\<lambda>x. map_option uncome (tr_blob s x))\<rparr>"

lemma forget_simps [simp]:
  "tr_skb (forget s) = tr_skb s" "tr_hotdrop (forget s) = tr_hotdrop s" "tr_world (forget s) = tr_world s"
  "tr_blob (forget s) x = map_option uncome (tr_blob s x)"
  by (simp_all add: forget_def)

lemma uncome_fields [simp]:
  "ip (uncome e) = ip e" "target_offset (uncome e) = target_offset e" "next_offset (uncome e) = next_offset e"
  "matches (uncome e) = matches e" "target (uncome e) = target e" "counters (uncome e) = counters e"
  "next_entry p (uncome e) = next_entry p e"
  "uncome (e\<lparr>comefrom := c\<rparr>) = uncome e"
  by (simp_all add: uncome_def next_entry_def)

lemma forget_upd [simp]:
  "forget (s\<lparr>tr_skb := a\<rparr>) = (forget s)\<lparr>tr_skb := a\<rparr>"
  "forget (s\<lparr>tr_world := w\<rparr>) = (forget s)\<lparr>tr_world := w\<rparr>"
  "forget (s\<lparr>tr_hotdrop := h\<rparr>) = (forget s)\<lparr>tr_hotdrop := h\<rparr>"
  by (simp_all add: forget_def)

lemma forget_blob_upd:
  "forget (s\<lparr>tr_blob := b(e \<mapsto> ent)\<rparr>) = s\<lparr>tr_blob := (\<lambda>x. map_option uncome (b x))(e \<mapsto> uncome ent)\<rparr>"
  by (auto simp: forget_def fun_eq_iff)

fun forget_rule :: "('w, 'm, 't) rule_result \<Rightarrow> ('w, 'm, 't) rule_result" where
  "forget_rule RFault = RFault"
| "forget_rule (RVerdict v s) = RVerdict v (forget s)"
| "forget_rule (RReturn s) = RReturn (forget s)"
| "forget_rule (RNext q s) = RNext q (forget s)"
| "forget_rule (RCall v q s) = RCall v q (forget s)"

lemma rule_target_forget:
  "rule_target hook inn out e (uncome ent) (forget s) = forget_rule (rule_target hook inn out e ent s)"
  by (simp add: rule_target_def Let_def split: option.split prod.split target_u.split)

lemma rule_run_forget:
  "rule_run hook inn out offset e (forget s) = forget_rule (rule_run hook inn out offset e s)"
proof (cases "tr_blob s e")
  case None
  then show ?thesis by (simp add: rule_run_def)
next
  case (Some ent)
  have *: "(forget s)\<lparr>tr_hotdrop := h, tr_world := w, tr_blob := (tr_blob (forget s))(e \<mapsto> (uncome ent)\<lparr>counters := c\<rparr>)\<rparr>
     = forget (s\<lparr>tr_hotdrop := h, tr_world := w, tr_blob := (tr_blob s)(e \<mapsto> ent\<lparr>counters := c\<rparr>)\<rparr>)" for h w c
    by (auto simp: forget_def fun_eq_iff uncome_def)
  have m: "tr_blob (forget s) e = Some (uncome ent)" by (simp add: Some)
  show ?thesis
    unfolding rule_run_def Some m option.case uncome_fields forget_simps(1-3) *
    by (simp add: rule_target_forget split: prod.split)
qed

subsection \<open>Rules and the graph\<close>

text \<open>Every target is in kernel form, and the standard target is the one without a function
  (the registry has \<open>ipt_standard_target\<close> with an empty name and no function).\<close>

definition kernel_form :: "('w, 'm, 't) blob \<Rightarrow> bool" where
  "kernel_form b \<longleftrightarrow> (\<forall>x ent. b x = Some ent \<longrightarrow>
     (\<exists>t. target_u (target ent) = TKernel t \<and> (xt_target t = None \<longleftrightarrow> xt_name t = '''')))"

definition shape :: "('w, 'm, 't) ipt_entry \<Rightarrow> ('w, 'm, 't) ipt_entry" where
  "shape e = e\<lparr>comefrom := 0, counters := \<lparr>pcnt = 0, bcnt = 0\<rparr>\<rparr>"

lemma shape_simps [simp]:
  "shape (e\<lparr>comefrom := c\<rparr>) = shape e" "shape (e\<lparr>counters := k\<rparr>) = shape e"
  "entry_node p (shape e) = entry_node p e" "next_entry p (shape e) = next_entry p e"
  "target (shape e) = target e"
  by (simp_all add: shape_def entry_node_def is_end_def is_standard_def next_entry_def)

definition same_shape :: "('w, 'm, 't) blob \<Rightarrow> ('w, 'm, 't) blob \<Rightarrow> bool" where
  "same_shape b b' \<longleftrightarrow> (\<forall>x. map_option shape (b' x) = map_option shape (b x))"

lemma graph_shape: "graph c p = map_option (entry_node p) (map_option shape (c p))"
  by (simp add: graph_def option.map_comp o_def)

lemma nxt_shape: "nxt c p = map_option (next_entry p) (map_option shape (c p))"
  by (simp add: nxt_def option.map_comp o_def)

lemma same_shape_graph: "same_shape b b' \<Longrightarrow> graph b' = graph b"
  by (rule ext) (simp add: same_shape_def graph_shape del: option.map_comp)

lemma same_shape_nxt: "same_shape b b' \<Longrightarrow> nxt b' = nxt b"
  by (rule ext) (simp add: same_shape_def nxt_shape del: option.map_comp)

lemma same_shape_Some:
  assumes "same_shape b b'" "b' x = Some e'"
  obtains e where "b x = Some e" "shape e = shape e'"
  using assms by (metis map_option_eq_Some same_shape_def)

lemma same_shape_kernel: "same_shape b b' \<Longrightarrow> kernel_form b \<Longrightarrow> kernel_form b'"
  unfolding kernel_form_def
proof (intro allI impI)
  fix x e'
  assume s: "same_shape b b'" and e': "b' x = Some e'" and k: "\<forall>x ent. b x = Some ent \<longrightarrow>
    (\<exists>t. target_u (target ent) = TKernel t \<and> (xt_target t = None \<longleftrightarrow> xt_name t = ''''))"
  obtain e where e: "b x = Some e" "shape e = shape e'" by (rule same_shape_Some [OF s e'])
  have "target e' = target e" using arg_cong [OF e(2), of target] by simp
  with k e(1) show "\<exists>t. target_u (target e') = TKernel t \<and> (xt_target t = None \<longleftrightarrow> xt_name t = '''')"
    by simp
qed

lemma same_shape_trans: "same_shape a b \<Longrightarrow> same_shape b c \<Longrightarrow> same_shape a c"
  by (simp add: same_shape_def)

text \<open>An unconditional rule matches every packet.\<close>

lemma unconditional_fields:
  assumes "unconditional i"
  shows "smsk i = 0" "dmsk i = 0" "src i = 0" "dst i = 0" "proto i = 0" "flags i = 0" "invflags i = 0"
    and "k < 4 \<Longrightarrow> rd32 (iniface_mask i) (4 * k) = 0" "k < 4 \<Longrightarrow> rd32 (outiface_mask i) (4 * k) = 0"
proof -
  have l: "\<forall>w \<in> set (ipt_ip_words i). w = 0" using assms by (simp only: unconditional_def list_all_iff)
  then have w: "ucast (proto i) OR push_bit 16 (ucast (flags i)) OR push_bit 24 (ucast (invflags i)) = (0 :: u32)"
    unfolding ipt_ip_words_def by simp
  have b: "\<not> bit (ucast (proto i) OR push_bit 16 (ucast (flags i)) OR push_bit 24 (ucast (invflags i)) :: u32) n" for n
    unfolding w by simp
  have "\<not> bit (proto i) n" if "n < 16" for n
    using b [of n] that by (simp only: bit_or_iff bit_push_bit_iff bit_ucast_iff) auto
  then show "proto i = 0" by (intro bit_word_eqI) simp
  have "\<not> bit (flags i) n" if "n < 8" for n
    using b [of "n + 16"] that by (simp only: bit_or_iff bit_push_bit_iff bit_ucast_iff) auto
  then show "flags i = 0" by (intro bit_word_eqI) simp
  have "\<not> bit (invflags i) n" if "n < 8" for n
    using b [of "n + 24"] that by (simp only: bit_or_iff bit_push_bit_iff bit_ucast_iff) auto
  then show "invflags i = 0" by (intro bit_word_eqI) simp
  from l show "smsk i = 0" "dmsk i = 0" "src i = 0" "dst i = 0"
    by (auto simp: ipt_ip_words_def)
  show "k < 4 \<Longrightarrow> rd32 (iniface_mask i) (4 * k) = 0" "k < 4 \<Longrightarrow> rd32 (outiface_mask i) (4 * k) = 0"
    using l by (auto simp: ipt_ip_words_def)
qed

lemma unconditional_matches: "unconditional i \<Longrightarrow> ip_packet_match iph indev outdev i isfrag"
proof -
  assume u: "unconditional i"
  have z: "ifname_cmp d n m = 0" if "\<And>k. k < 4 \<Longrightarrow> rd32 m (4 * k) = 0" for d n m
    using that [of 0] that [of 1] that [of 2] that [of 3] by (simp add: ifname_cmp_def upt_rec)
  show ?thesis
    using unconditional_fields [OF u] by (simp add: ip_packet_match_def fwinv_def z)
qed

fun rr_state :: "('w, 'm, 't) rule_result \<Rightarrow> ('w, 'm, 't) trav option" where
  "rr_state RFault = None"
| "rr_state (RVerdict v s) = Some s"
| "rr_state (RReturn s) = Some s"
| "rr_state (RNext q s) = Some s"
| "rr_state (RCall v q s) = Some s"

definition keeps :: "('w, 'm, 't) trav \<Rightarrow> ('w, 'm, 't) trav \<Rightarrow> bool" where
  "keeps s s' \<longleftrightarrow> same_shape (tr_blob s) (tr_blob s')
     \<and> (\<forall>x. map_option comefrom (tr_blob s' x) = map_option comefrom (tr_blob s x))"

lemma rule_target_blob: "rr_state (rule_target hook inn out e ent s) = Some s' \<Longrightarrow> tr_blob s' = tr_blob s"
  by (auto simp: rule_target_def Let_def split: target_u.splits option.splits prod.splits if_splits)

lemma rule_run_keeps:
  assumes "rr_state (rule_run hook inn out offset e s) = Some s'"
  shows "keeps s s'"
proof (cases "tr_blob s e")
  case None
  with assms show ?thesis by (simp add: rule_run_def)
next
  case (Some ent)
  then show ?thesis
    using assms
    by (auto simp: rule_run_def keeps_def same_shape_def split: if_splits prod.splits
        dest!: rule_target_blob)
qed

lemma match_iterate_none: "\<not> i < toff \<Longrightarrow> match_iterate fn i toff ms s = (0, ms, s)"
  by (cases ms) auto

text \<open>An end rule always applies its verdict.\<close>

lemma rule_run_end:
  assumes "tr_blob s e = Some ent" "is_end ent"
  shows "rule_run hook inn out offset e s =
    rule_target hook inn out e ent (s\<lparr>tr_blob := (tr_blob s)(e \<mapsto> ent\<lparr>counters := add_counter (counters ent)
      (ucast (ntohs (iph_tot_len (skb_data (tr_skb s))))) 1\<rparr>)\<rparr>)"
proof -
  have "unconditional (ip ent)" "unat (target_offset ent) = 112"
    using assms(2) by (simp_all add: is_end_def)
  then show ?thesis
    by (simp add: rule_run_def assms(1) unconditional_matches match_iterate_none)
qed

lemma rule_run_graph:
  assumes k: "kernel_form (tr_blob s)" and e: "graph (tr_blob s) e \<noteq> None"
  shows "rule_run hook inn out offset e s \<noteq> RFault"
    and "rule_run hook inn out offset e s = RNext q s' \<Longrightarrow> edge (graph (tr_blob s)) e q"
    and "rule_run hook inn out offset e s = RCall v q s' \<Longrightarrow> graph (tr_blob s) e = Some (NJump v q)"
proof -
  obtain ent where ent: "tr_blob s e = Some ent" using e by (auto simp: graph_def)
  then obtain t where t: "target_u (target ent) = TKernel t" "xt_target t = None \<longleftrightarrow> is_standard ent"
    using k by (force simp: kernel_form_def is_standard_def)
  have g: "graph (tr_blob s) e = Some (entry_node e ent)" by (simp add: graph_def ent)
  have n: "edge (graph (tr_blob s)) e (next_entry e ent)" if "\<not> is_end ent"
    using that g by (auto simp: edge.simps entry_node_def)
  have T: "rule_target hook inn out e ent s1 \<noteq> RFault"
    "rule_target hook inn out e ent s1 = RNext q s' \<Longrightarrow> edge (graph (tr_blob s)) e q"
    "rule_target hook inn out e ent s1 = RCall v q s' \<Longrightarrow> graph (tr_blob s) e = Some (NJump v q)" for s1
    using g t n by (auto simp: rule_target_def Let_def edge.simps entry_node_def is_end_def
        split: if_splits prod.splits option.splits)
  show "rule_run hook inn out offset e s \<noteq> RFault"
    using T(1) by (auto simp: rule_run_def ent split: prod.split)
  show "edge (graph (tr_blob s)) e q" if r: "rule_run hook inn out offset e s = RNext q s'"
  proof (cases "is_end ent")
    case True
    then show ?thesis using r T(2) by (simp add: rule_run_end [OF ent True])
  next
    case False
    then show ?thesis using r T(2) n by (auto simp: rule_run_def ent split: if_splits prod.splits)
  qed
  show "graph (tr_blob s) e = Some (NJump v q)" if "rule_run hook inn out offset e s = RCall v q s'"
    using that T(3) by (auto simp: rule_run_def ent split: if_splits prod.splits)
qed

subsection \<open>The return stack\<close>

text \<open>The return addresses that are pending while rule \<open>e\<close> runs: each was pushed by a jump
  whose called chain leads to the caller of the next one, and finally to \<open>e\<close>.\<close>

fun pending :: "(u32 \<rightharpoonup> node) \<Rightarrow> u32 \<Rightarrow> u32 list \<Rightarrow> bool" where
  "pending G e [] = True"
| "pending G e (n # ns) = (\<exists>c v. G c = Some (NJump v n) \<and> reach G v e \<and> pending G c ns)"

lemma pending_edge: "pending G e ns \<Longrightarrow> edge G e q \<Longrightarrow> pending G q ns"
  by (cases ns) (auto intro: rtranclp.rtrancl_into_rtrancl)

lemma pending_caller:
  "pending G e ns \<Longrightarrow> n \<in> set ns \<Longrightarrow> \<exists>c v. G c = Some (NJump v n) \<and> (edge G)\<^sup>+\<^sup>+ c e"
proof (induction ns arbitrary: e)
  case (Cons m ns)
  then obtain c v where c: "G c = Some (NJump v m)" "reach G v e" "pending G c ns" by auto
  have "edge G c v" using edge_Jump [of G, OF c(1)] .
  then have ce: "(edge G)\<^sup>+\<^sup>+ c e" using c(2) by (rule rtranclp_into_tranclp2)
  show ?case
  proof (cases "n = m")
    case True
    with c(1) ce show ?thesis by blast
  next
    case False
    then obtain d w where "G d = Some (NJump w n)" "(edge G)\<^sup>+\<^sup>+ d c"
      using Cons.IH [OF c(3)] Cons.prems(2) by auto
    with ce show ?thesis by (meson tranclp_trans)
  qed
qed simp

text \<open>Entries that do not overlap have different successors.\<close>

definition nxt_inj :: "('w, 'm, 't) blob \<Rightarrow> bool" where
  "nxt_inj b \<longleftrightarrow> (\<forall>p q n. nxt b p = Some n \<longrightarrow> nxt b q = Some n \<longrightarrow> p = q)"

lemma graph_Jump_nxt: "graph b p = Some (NJump v n) \<Longrightarrow> nxt b p = Some n"
  by (auto simp: graph_def nxt_def entry_node_def split: if_splits)

lemma pending_fresh:
  assumes "dag (graph b) e" "nxt_inj b" "pending (graph b) e ns" "graph b e = Some (NJump v n)"
  shows "n \<notin> set ns"
proof
  assume "n \<in> set ns"
  then obtain c w where c: "graph b c = Some (NJump w n)" "(edge (graph b))\<^sup>+\<^sup>+ c e"
    using pending_caller [OF assms(3)] by blast
  then have "c = e"
    using graph_Jump_nxt [of b c] graph_Jump_nxt [of b e] assms(2,4) unfolding nxt_inj_def by blast
  with c(2) dag_no_cycle [OF assms(1)] show False by blast
qed

lemma dag_induct [consumes 1, case_names step]:
  assumes "dag G p" and "\<And>p. dag G p \<Longrightarrow> (\<And>q. edge G p q \<Longrightarrow> P q) \<Longrightarrow> P p"
  shows "P p"
  using assms(1)
proof (induction rule: dag.induct)
  case (dag_End p)
  then show ?case using assms(2) [of p] by (auto simp: edge_iff intro: dag.dag_End)
next
  case (dag_Step p q)
  then show ?case using assms(2) [of p] by (auto simp: edge_iff intro: dag.dag_Step)
next
  case (dag_Jump p v q)
  then show ?case using assms(2) [of p] by (auto simp: edge_iff intro: dag.dag_Jump)
qed

subsection \<open>Refinement\<close>

definition pop :: "nat \<Rightarrow> netdev option \<Rightarrow> netdev option \<Rightarrow> u16 \<Rightarrow> u32 \<Rightarrow> ('w, 'm, 't) trav
    \<Rightarrow> (u32 \<times> ('w, 'm, 't) trav) exec option" where
  "pop hook inn out offset back s =
     (case tr_blob s back of
        None \<Rightarrow> Some Fault
      | Some be \<Rightarrow> do_table_loop hook inn out offset back (comefrom be) s)"

text \<open>The loop at \<open>e\<close> with return address \<open>back\<close> against the reference run of the chain at
  \<open>e\<close>: it ends with the same verdict, or it goes on at \<open>back\<close> with the pending return
  addresses as they were.\<close>

definition same_stack :: "u32 list \<Rightarrow> ('w, 'm, 't) trav \<Rightarrow> ('w, 'm, 't) trav \<Rightarrow> bool" where
  "same_stack ns s s' \<longleftrightarrow> same_shape (tr_blob s) (tr_blob s')
     \<and> (\<forall>n \<in> set ns. map_option comefrom (tr_blob s' n) = map_option comefrom (tr_blob s n))"

definition refines :: "nat \<Rightarrow> netdev option \<Rightarrow> netdev option \<Rightarrow> u16 \<Rightarrow> u32 \<Rightarrow> u32 \<Rightarrow> u32 list
    \<Rightarrow> ('w, 'm, 't) trav \<Rightarrow> bool" where
  "refines hook inn out offset e back ns s \<longleftrightarrow>
     (\<exists>v s'. chain_run hook inn out offset e (forget s) = Some (CVerdict v (forget s'))
        \<and> do_table_loop hook inn out offset e back s = Some (Ret (v, s')))
     \<or> (\<exists>s'. chain_run hook inn out offset e (forget s) = Some (CReturn (forget s'))
        \<and> do_table_loop hook inn out offset e back s = pop hook inn out offset back s'
        \<and> same_stack ns s s')"

lemma same_stack_refl [simp]: "same_stack ns s s"
  by (simp add: same_stack_def same_shape_def)

lemma same_stack_trans: "same_stack ns a b \<Longrightarrow> same_stack ns b c \<Longrightarrow> same_stack ns a c"
  by (auto simp: same_stack_def intro: same_shape_trans)

lemma keeps_stack: "keeps s s' \<Longrightarrow> same_stack ns s s'"
  by (simp add: keeps_def same_stack_def)

lemma refines_next:
  assumes "refines hook inn out offset q back ns s1" "same_stack ns s s1"
    and "chain_run hook inn out offset e (forget s) = chain_run hook inn out offset q (forget s1)"
    and "do_table_loop hook inn out offset e back s = do_table_loop hook inn out offset q back s1"
  shows "refines hook inn out offset e back ns s"
  using assms(1) same_stack_trans [OF assms(2)] unfolding refines_def assms(3,4) by blast

lemma loop_unfold:
  "do_table_loop hook inn out offset e back s =
     (case rule_run hook inn out offset e s of
        RFault \<Rightarrow> Some Fault
      | RVerdict vd s' \<Rightarrow> Some (Ret (if tr_hotdrop s' then NF_DROP else vd, s'))
      | RReturn s' \<Rightarrow> (case tr_blob s' back of None \<Rightarrow> Some Fault
          | Some be \<Rightarrow> if tr_hotdrop s' then Some (Ret (NF_DROP, s'))
                       else do_table_loop hook inn out offset back (comefrom be) s')
      | RNext q s' \<Rightarrow> if tr_hotdrop s' then Some (Ret (NF_DROP, s'))
                      else do_table_loop hook inn out offset q back s'
      | RCall v q s' \<Rightarrow> (case tr_blob s' q of None \<Rightarrow> Some Fault
          | Some ne \<Rightarrow>
              (let s'' = s'\<lparr>tr_blob := (tr_blob s')(q \<mapsto> ne\<lparr>comefrom := back\<rparr>)\<rparr> in
               if tr_hotdrop s' then Some (Ret (NF_DROP, s''))
               else do_table_loop hook inn out offset v q s'')))"
  by (subst do_table_loop.simps)
    (simp only: pass_rule Let_def split: rule_result.split option.split, auto)

lemma chain_unfold:
  "chain_run hook inn out offset e (forget s) =
     (case rule_run hook inn out offset e s of
        RFault \<Rightarrow> Some CFault
      | RVerdict vd s' \<Rightarrow> Some (CVerdict (if tr_hotdrop s' then NF_DROP else vd) (forget s'))
      | RReturn s' \<Rightarrow> if tr_hotdrop s' then Some (CVerdict NF_DROP (forget s')) else Some (CReturn (forget s'))
      | RNext q s' \<Rightarrow> if tr_hotdrop s' then Some (CVerdict NF_DROP (forget s'))
                      else chain_run hook inn out offset q (forget s')
      | RCall v q s' \<Rightarrow> if tr_hotdrop s' then Some (CVerdict NF_DROP (forget s'))
                        else chain_then (chain_run hook inn out offset v (forget s'))
                               (\<lambda>s''. chain_run hook inn out offset q s''))"
  by (subst chain_run.simps) (simp add: rule_run_forget split: rule_result.split)

lemma chain_then_simps [simp]:
  "chain_then (Some (CVerdict v s)) k = Some (CVerdict v s)"
  "chain_then (Some (CReturn s)) k = k s"
  "chain_then (Some CFault) k = Some CFault"
  by (simp_all add: chain_then_def)

lemma refines_call:
  assumes r: "rule_run hook inn out offset e s = RCall v q s1" and ne: "tr_blob s1 q = Some ne"
    and s2: "s2 = s1\<lparr>tr_blob := (tr_blob s1)(q \<mapsto> ne\<lparr>comefrom := back\<rparr>)\<rparr>"
    and hd: "\<not> tr_hotdrop s1" and q: "q \<notin> set ns"
    and IHv: "refines hook inn out offset v q (q # ns) s2"
    and IHq: "\<And>s3. same_stack (q # ns) s2 s3 \<Longrightarrow> refines hook inn out offset q back ns s3"
  shows "refines hook inn out offset e back ns s"
proof -
  have f: "forget s2 = forget s1" using ne by (auto simp: s2 forget_def fun_eq_iff)
  have l: "do_table_loop hook inn out offset e back s = do_table_loop hook inn out offset v q s2"
    using hd by (subst loop_unfold) (simp add: r ne s2 Let_def)
  have c: "chain_run hook inn out offset e (forget s) =
      chain_then (chain_run hook inn out offset v (forget s2)) (\<lambda>s''. chain_run hook inn out offset q s'')"
    using hd by (subst chain_unfold) (simp add: r f)
  have "same_stack ns s s1" using rule_run_keeps [of hook inn out offset e s s1] r by (simp add: keeps_stack)
  moreover have "same_stack ns s1 s2" using ne q by (auto simp: s2 same_stack_def same_shape_def)
  ultimately have ss: "same_stack ns s s2" by (rule same_stack_trans)
  from IHv show ?thesis
    unfolding refines_def [of hook inn out offset v]
  proof (elim disjE exE conjE)
    fix d s'
    assume "chain_run hook inn out offset v (forget s2) = Some (CVerdict d (forget s'))"
      "do_table_loop hook inn out offset v q s2 = Some (Ret (d, s'))"
    then show ?thesis unfolding refines_def l c by auto
  next
    fix s3
    assume v: "chain_run hook inn out offset v (forget s2) = Some (CReturn (forget s3))"
      "do_table_loop hook inn out offset v q s2 = pop hook inn out offset q s3" and s3: "same_stack (q # ns) s2 s3"
    have "map_option comefrom (tr_blob s3 q) = Some back" using s3 by (simp add: same_stack_def s2)
    then have "do_table_loop hook inn out offset e back s = do_table_loop hook inn out offset q back s3"
      by (auto simp: l v(2) pop_def)
    moreover have "chain_run hook inn out offset e (forget s) = chain_run hook inn out offset q (forget s3)"
      by (simp add: c v(1))
    moreover have "same_stack ns s2 s3" using s3 by (simp add: same_stack_def)
    then have "same_stack ns s s3" by (rule same_stack_trans [OF ss])
    ultimately show ?thesis using refines_next [OF IHq [OF s3]] by blast
  qed
qed

lemma same_stack_inv:
  assumes "same_stack ns s s'"
  shows "graph (tr_blob s') = graph (tr_blob s)" "kernel_form (tr_blob s) \<Longrightarrow> kernel_form (tr_blob s')"
    "nxt (tr_blob s') = nxt (tr_blob s)" "tr_blob s' x = None \<longleftrightarrow> tr_blob s x = None"
proof -
  have s: "same_shape (tr_blob s) (tr_blob s')" using assms by (simp add: same_stack_def)
  show "graph (tr_blob s') = graph (tr_blob s)" by (rule same_shape_graph [OF s])
  show "kernel_form (tr_blob s) \<Longrightarrow> kernel_form (tr_blob s')" by (rule same_shape_kernel [OF s])
  show "nxt (tr_blob s') = nxt (tr_blob s)" by (rule same_shape_nxt [OF s])
  show "tr_blob s' x = None \<longleftrightarrow> tr_blob s x = None"
    using s unfolding same_shape_def by (metis option.map_disc_iff)
qed

text \<open>What the traversal relies on while it runs.\<close>

definition run_inv :: "(u32 \<rightharpoonup> node) \<Rightarrow> (u32 \<rightharpoonup> u32) \<Rightarrow> ('w, 'm, 't) trav \<Rightarrow> bool" where
  "run_inv G N s \<longleftrightarrow> graph (tr_blob s) = G \<and> nxt (tr_blob s) = N \<and> nxt_inj (tr_blob s)
     \<and> kernel_form (tr_blob s)"

lemma run_inv_stack: "run_inv G N s \<Longrightarrow> same_stack ns s s' \<Longrightarrow> run_inv G N s'"
  using same_stack_inv [of ns s s'] by (auto simp: run_inv_def nxt_inj_def)

lemma refines_step_call:
  fixes s :: "('w, 'm, 't) trav"
  assumes d: "dag G e" and inv: "run_inv G N s" and p: "pending G e ns" and b: "tr_blob s back \<noteq> None"
    and r: "rule_run hook inn out offset e s = RCall v q s1"
    and IH: "\<And>q (s :: ('w, 'm, 't) trav) ns back. edge G e q \<Longrightarrow> run_inv G N s \<Longrightarrow> pending G q ns \<Longrightarrow> tr_blob s back \<noteq> None
      \<Longrightarrow> refines hook inn out offset q back ns s"
  shows "refines hook inn out offset e back ns s"
proof -
  have g: "graph (tr_blob s) = G" and k: "kernel_form (tr_blob s)" and i: "nxt_inj (tr_blob s)"
    using inv by (simp_all add: run_inv_def)
  have ss: "same_stack ns s s1"
    using rule_run_keeps [of hook inn out offset e s s1] r by (simp add: keeps_stack)
  have J: "G e = Some (NJump v q)" using rule_run_graph(3) [OF k _ r] dag_entry [OF d] g by simp
  have E: "edge G e v" "edge G e q" using J by (simp_all add: edge_iff)
  have "graph (tr_blob s1) q \<noteq> None"
    using dag_entry [OF dag_edge [OF d E(2)]] same_stack_inv(1) [OF ss] g by simp
  then obtain ne where ne: "tr_blob s1 q = Some ne" by (auto simp: graph_def)
  define s2 where "s2 = s1\<lparr>tr_blob := (tr_blob s1)(q \<mapsto> ne\<lparr>comefrom := back\<rparr>)\<rparr>"
  have f: "forget s2 = forget s1" using ne by (auto simp: s2_def forget_def fun_eq_iff)
  have s12: "same_stack [] s1 s2" using ne by (auto simp: s2_def same_stack_def same_shape_def)
  have i2: "run_inv G N s2" by (rule run_inv_stack [OF run_inv_stack [OF inv ss] s12])
  have b2: "tr_blob s2 back \<noteq> None"
    using b same_stack_inv(4) [OF ss] same_stack_inv(4) [OF s12] by simp
  show ?thesis
  proof (cases "tr_hotdrop s1")
    case True
    with r ne show ?thesis
      unfolding refines_def
      by (subst (1 2) chain_unfold, subst loop_unfold) (auto simp: Let_def f [unfolded s2_def])
  next
    case False
    show ?thesis
    proof (rule refines_call [OF r ne s2_def False])
      show "q \<notin> set ns" using pending_fresh [of "tr_blob s" e ns v q] d p i J g by simp
      show "refines hook inn out offset v q (q # ns) s2"
        using IH [OF E(1) i2, of "q # ns" q] J p by (auto simp: s2_def)
      show "refines hook inn out offset q back ns s3" if "same_stack (q # ns) s2 s3" for s3
        using IH [OF E(2) run_inv_stack [OF i2 that] pending_edge [OF p E(2)]]
          same_stack_inv(4) [OF that] b2 by simp
    qed
  qed
qed

lemma loop_refines:
  assumes "dag G e" "run_inv G N s" "pending G e ns" "tr_blob s back \<noteq> None"
  shows "refines hook inn out offset e back ns s"
  using assms
proof (induction arbitrary: s ns "back" rule: dag_induct)
  case (step e)
  have g: "graph (tr_blob s) = G" and k: "kernel_form (tr_blob s)" and i: "nxt_inj (tr_blob s)"
    using step.prems(1) by (simp_all add: run_inv_def)
  have ge: "graph (tr_blob s) e \<noteq> None" using dag_entry [OF step.hyps] g by simp
  note rg = rule_run_graph [OF k ge, where hook = hook and inn = inn and out = out and offset = offset]
  note rk = rule_run_keeps [where hook = hook and inn = inn and out = out and offset = offset and e = e and s = s]
  show ?case
  proof (cases "rule_run hook inn out offset e s")
    case RFault
    with rg(1) show ?thesis by simp
  next
    case (RVerdict v s1)
    then show ?thesis unfolding refines_def by (subst (1 2) chain_unfold, subst loop_unfold) auto
  next
    case (RReturn s1)
    have ss: "same_stack ns s s1" using rk RReturn keeps_stack by simp
    then obtain be where "tr_blob s1 back = Some be" using same_stack_inv(4) step.prems(3) by fastforce
    with RReturn ss show ?thesis
      unfolding refines_def by (subst (1 2) chain_unfold, subst (1 2) loop_unfold) (auto simp: pop_def)
  next
    case (RNext q s1)
    have ss: "same_stack ns s s1" using rk RNext keeps_stack by simp
    have q: "edge G e q" using rg(2) RNext g by simp
    show ?thesis
    proof (cases "tr_hotdrop s1")
      case True
      with RNext show ?thesis unfolding refines_def by (subst (1 2) chain_unfold, subst loop_unfold) auto
    next
      case False
      have "refines hook inn out offset q back ns s1"
        using step.IH [OF q run_inv_stack [OF step.prems(1) ss] pending_edge [OF step.prems(2) q]]
          same_stack_inv(4) [OF ss] step.prems(3) by simp
      then show ?thesis
        by (rule refines_next [OF _ ss]) (use RNext False in \<open>simp_all add: chain_unfold [of _ _ _ _ e] loop_unfold [of _ _ _ _ e]\<close>)
    qed
  next
    case (RCall v q s1)
    show ?thesis by (rule refines_step_call [OF step.hyps step.prems RCall]) (rule step.IH)
  qed
qed

subsection \<open>Tables that can be run\<close>

text \<open>The underflow rule of a built-in chain, as user space writes it: unconditional, with an
  absolute verdict. \<open>check_entry_size_and_hooks\<close> leaves this unchecked.\<close>

definition policy_rule :: "('w, 'm, 't) blob \<Rightarrow> u32 \<Rightarrow> bool" where
  "policy_rule b u \<longleftrightarrow> (\<exists>ue. b u = Some ue \<and> is_end ue \<and> verdict (target ue) \<noteq> IPT_RETURN)"

definition runnable :: "('w, 'm, 't) xt_table_info \<Rightarrow> nat \<Rightarrow> bool" where
  "runnable info hook \<longleftrightarrow> dag (graph (entries info)) (hook_entry info hook)
     \<and> nxt_inj (entries info) \<and> kernel_form (entries info) \<and> policy_rule (entries info) (underflow info hook)"

lemma policy_verdict:
  assumes "kernel_form (tr_blob s)" "policy_rule (tr_blob s) u"
  shows "\<exists>v s'. rule_run hook inn out offset u s = RVerdict v s'"
proof -
  obtain ue where ue: "tr_blob s u = Some ue" "is_end ue" "verdict (target ue) \<noteq> IPT_RETURN"
    using assms(2) by (auto simp: policy_rule_def)
  then obtain t where "target_u (target ue) = TKernel t" "xt_target t = None"
    using assms(1) by (force simp: kernel_form_def is_end_def is_standard_def)
  then show ?thesis
    unfolding rule_run_end [OF ue(1,2)] using ue by (simp add: rule_target_def is_end_def)
qed

lemma same_shape_policy:
  assumes "same_shape b b'" "policy_rule b u"
  shows "policy_rule b' u"
proof -
  obtain ue where ue: "b u = Some ue" "is_end ue" "verdict (target ue) \<noteq> IPT_RETURN"
    using assms(2) by (auto simp: policy_rule_def)
  then obtain ue' where u': "b' u = Some ue'" "shape ue' = shape ue"
    using assms(1) unfolding same_shape_def by (metis map_option_eq_Some)
  have "is_end ue' \<longleftrightarrow> is_end (shape ue')" "is_end ue \<longleftrightarrow> is_end (shape ue)"
    by (simp_all add: is_end_def is_standard_def shape_def)
  moreover have "target ue' = target ue" using arg_cong [OF u'(2), of target] by simp
  ultimately show ?thesis using ue u' by (auto simp: policy_rule_def)
qed

lemma do_table_run:
  assumes "runnable info hook"
  shows "\<exists>v s'. ipt_do_table skb hook inn out info w = Some (Ret (v, s'))
    \<and> table_run hook inn out (ntohs (iph_frag_off (skb_data skb)) AND 0x1FFF) (hook_entry info hook)
        (underflow info hook)
        (forget \<lparr>tr_blob = entries info, tr_skb = skb, tr_hotdrop = False, tr_world = w\<rparr>)
      = Some (CVerdict v (forget s'))"
proof -
  let ?o = "ntohs (iph_frag_off (skb_data skb)) AND 0x1FFF" and ?u = "underflow info hook"
    and ?e = "hook_entry info hook"
  define s where "s = \<lparr>tr_blob = entries info, tr_skb = skb, tr_hotdrop = False, tr_world = w\<rparr>"
  have r: "dag (graph (entries info)) ?e" "policy_rule (tr_blob s) ?u" "kernel_form (tr_blob s)"
    "run_inv (graph (entries info)) (nxt (entries info)) s" "tr_blob s ?u \<noteq> None"
    using assms by (auto simp: runnable_def run_inv_def s_def policy_rule_def)
  have "refines hook inn out ?o ?e ?u [] s" using loop_refines [OF r(1,4) _ r(5)] by simp
  then have "\<exists>v s'. do_table_loop hook inn out ?o ?e ?u s = Some (Ret (v, s'))
      \<and> table_run hook inn out ?o ?e ?u (forget s) = Some (CVerdict v (forget s'))"
    unfolding refines_def
  proof (elim disjE exE conjE)
    fix v s'
    assume "chain_run hook inn out ?o ?e (forget s) = Some (CVerdict v (forget s'))"
      "do_table_loop hook inn out ?o ?e ?u s = Some (Ret (v, s'))"
    then show ?thesis by (auto simp: table_run_def)
  next
    fix s1
    assume c: "chain_run hook inn out ?o ?e (forget s) = Some (CReturn (forget s1))"
      "do_table_loop hook inn out ?o ?e ?u s = pop hook inn out ?o ?u s1" and ss: "same_stack [] s s1"
    have sh: "same_shape (tr_blob s) (tr_blob s1)" using ss by (simp add: same_stack_def)
    obtain be where be: "tr_blob s1 ?u = Some be" using same_stack_inv(4) [OF ss, of ?u] r(5) by auto
    obtain v s2 where v: "rule_run hook inn out ?o ?u s1 = RVerdict v s2"
      using policy_verdict [OF same_shape_kernel [OF sh r(3)] same_shape_policy [OF sh r(2)]] by blast
    have "do_table_loop hook inn out ?o ?e ?u s = Some (Ret (if tr_hotdrop s2 then NF_DROP else v, s2))"
      unfolding c(2) pop_def be by (subst option.case, subst loop_unfold) (simp add: v)
    moreover have "chain_run hook inn out ?o ?u (forget s1)
        = Some (CVerdict (if tr_hotdrop s2 then NF_DROP else v) (forget s2))"
      by (subst chain_unfold) (simp add: v)
    ultimately show ?thesis by (auto simp: table_run_def c(1))
  qed
  then show ?thesis by (simp add: ipt_do_table_def s_def)
qed

end
