(* ===== verification/Translate.thy ===== *)
theory Translate
  imports Do_Table
begin

section \<open>Accepted tables can be run\<close>

text \<open>
  What a successful \<open>translate_table\<close> establishes: the entries tile the blob, every hook
  points at an entry, no cycle is reachable, every match and target has been resolved. With
  the policy rules that user space writes (which the code does not check) the table is
  \<open>runnable\<close>, so that \<open>ipt_do_table\<close> always gives a verdict on it.
\<close>

subsection \<open>The offsets an iteration visits\<close>

inductive walk :: "('w, 'm, 't) blob \<Rightarrow> u32 \<Rightarrow> u32 \<Rightarrow> u32 list \<Rightarrow> bool" for b sz where
  walk_done: "\<not> i < sz \<Longrightarrow> walk b sz i []"
| walk_step: "i < sz \<Longrightarrow> b i = Some e \<Longrightarrow> walk b sz (next_entry i e) ps \<Longrightarrow> walk b sz i (i # ps)"

lemma walk_unique: "walk b sz i ps \<Longrightarrow> walk b sz i qs \<Longrightarrow> ps = qs"
proof (induction arbitrary: qs rule: walk.induct)
  case (walk_done i)
  from walk_done(2,1) show ?case by cases auto
next
  case (walk_step i e ps)
  from walk_step.prems walk_step.hyps obtain qs' where "qs = i # qs'" "walk b sz (next_entry i e) qs'"
    by cases auto
  then show ?case using walk_step.IH by blast
qed

lemma walk_cong:
  assumes "walk b sz i ps" "\<And>p. nxt b' p = nxt b p"
  shows "walk b' sz i ps"
  using assms(1)
proof (induction rule: walk.induct)
  case (walk_step i e ps)
  then obtain e' where "b' i = Some e'" "next_entry i e' = next_entry i e"
    using assms(2) [of i] by (auto simp: nxt_def)
  with walk_step show ?case by (metis walk.walk_step)
qed (rule walk.walk_done)

text \<open>The offsets at which entries start.\<close>

definition starts :: "('w, 'm, 't) blob \<Rightarrow> u32 \<Rightarrow> u32 set" where
  "starts b sz = {p. \<exists>ps. walk b sz 0 ps \<and> p \<in> set ps}"

text \<open>With the bounds that the first pass checks, the offsets increase.\<close>

definition in_bounds :: "('w, 'm, 't) blob \<Rightarrow> u32 \<Rightarrow> u32 \<Rightarrow> bool" where
  "in_bounds b sz p \<longleftrightarrow> unat p + sizeof_ipt_entry < unat sz
     \<and> (\<exists>e. b p = Some e \<and> sizeof_ipt_entry + sizeof_ipt_entry_target \<le> unat (next_offset e))"

lemma next_entry_unat:
  assumes "unat sz < 2 ^ 31" "unat p + 112 < unat sz"
  shows "unat (next_entry p e) = unat p + unat (next_offset e)"
proof -
  have "unat p + unat (next_offset e) < 2 ^ 32" using assms unat_lt_16 [of "next_offset e"] by simp
  then show ?thesis by (simp add: next_entry_def unat_word_ariths unat_ucast_up)
qed

lemma walk_increasing:
  assumes "walk b sz i ps" "unat sz < 2 ^ 31" "\<forall>p \<in> set ps. in_bounds b sz p"
  shows "(\<forall>p \<in> set ps. unat i \<le> unat p)
    \<and> (\<forall>p \<in> set ps. \<forall>q \<in> set ps. nxt b p = nxt b q \<longrightarrow> p = q)
    \<and> (\<forall>p \<in> set ps. \<exists>n. nxt b p = Some n \<and> unat i < unat n)"
  using assms(1,3)
proof (induction rule: walk.induct)
  case (walk_step i e ps)
  have ib: "in_bounds b sz i" using walk_step.prems by simp
  then have n: "unat i + 144 \<le> unat (next_entry i e)"
    using walk_step.hyps(2) next_entry_unat [OF assms(2), of i e] by (auto simp: in_bounds_def)
  have ni: "nxt b i = Some (next_entry i e)" using walk_step.hyps(2) by (simp add: nxt_def)
  have IH: "\<forall>p \<in> set ps. unat (next_entry i e) \<le> unat p"
    "\<forall>p \<in> set ps. \<forall>q \<in> set ps. nxt b p = nxt b q \<longrightarrow> p = q"
    "\<forall>p \<in> set ps. \<exists>n. nxt b p = Some n \<and> unat (next_entry i e) < unat n"
    using walk_step.IH walk_step.prems by auto
  have ne: "nxt b p \<noteq> nxt b i" if "p \<in> set ps" for p
    using IH(3) ni that by fastforce
  show ?case
  proof (intro conjI ballI impI)
    fix p assume p: "p \<in> set (i # ps)"
    show "unat i \<le> unat p" using p IH(1) n by (cases "p = i") fastforce+
    show "\<exists>m. nxt b p = Some m \<and> unat i < unat m"
      using p IH(3) n ni by (cases "p = i") fastforce+
    fix q assume "q \<in> set (i # ps)" "nxt b p = nxt b q"
    then show "p = q" using p IH(2) ne by (metis set_ConsD)
  qed
qed simp

subsection \<open>Successful iterations\<close>

lemma iterate_success [consumes 1, case_names stop step]:
  assumes "entry_iterate fn sz i b s = Some (Ret (0, b', s'))"
    and stop: "\<And>i b s. \<not> i < sz \<Longrightarrow> P i b s b s"
    and step: "\<And>i b s b1 s1 e b' s'. i < sz \<Longrightarrow> fn i b s = Ret (0, b1, s1) \<Longrightarrow> b1 i = Some e
      \<Longrightarrow> P (next_entry i e) b1 s1 b' s' \<Longrightarrow> P i b s b' s'"
  shows "P i b s b' s'"
proof -
  define Q where "Q g z i b s y \<longleftrightarrow> (\<forall>b' s'. y = Ret (0 :: int, b', s') \<longrightarrow> g = fn \<longrightarrow> z = sz \<longrightarrow> P i b s b' s')"
    for g z i b s y
  have "Q fn sz i b s (Ret (0, b', s'))"
  proof (rule entry_iterate.raw_induct [OF _ assms(1), where P = Q])
    fix f g z i b s y
    assume IH: "\<And>g z i b s y. f g z i b s = Some y \<Longrightarrow> Q g z i b s y"
      and u: "(if i < z then case g i b s of Fault \<Rightarrow> Some Fault | Ret (r, b', s') \<Rightarrow>
               if r \<noteq> 0 then Some (Ret (r, b', s'))
               else case b' i of None \<Rightarrow> Some Fault | Some e \<Rightarrow> f g z (i + ucast (next_offset e)) b' s'
             else Some (Ret (0, b, s))) = Some y"
    show "Q g z i b s y"
      unfolding Q_def
    proof (intro allI impI)
      fix b' s' assume y: "y = Ret (0, b', s')" and [simp]: "g = fn" "z = sz"
      show "P i b s b' s'"
      proof (cases "i < sz")
        case False
        with u y stop show ?thesis by simp
      next
        case True
        with u y obtain b1 s1 e where r: "fn i b s = Ret (0, b1, s1)" "b1 i = Some e"
          "f fn sz (next_entry i e) b1 s1 = Some (Ret (0, b', s'))"
          by (auto simp: next_entry_def split: exec.splits prod.splits if_splits option.splits)
        with step [OF True r(1,2)] IH [OF r(3)] show ?thesis by (simp add: Q_def)
      qed
    qed
  qed
  then show ?thesis by (simp add: Q_def)
qed

text \<open>The first pass clears the entries it visits and notes the hooks it finds.\<close>

definition clear_entry :: "('w, 'm, 't) ipt_entry \<Rightarrow> ('w, 'm, 't) ipt_entry" where
  "clear_entry e = e\<lparr>counters := \<lparr>pcnt = 0, bcnt = 0\<rparr>, comefrom := 0\<rparr>"

lemma clear_entry_simps [simp]:
  "clear_entry (clear_entry e) = clear_entry e" "next_entry p (clear_entry e) = next_entry p e"
  "next_offset (clear_entry e) = next_offset e" "entry_node p (clear_entry e) = entry_node p e"
  "shape (clear_entry e) = shape e" "comefrom (clear_entry e) = 0" "pcnt (counters (clear_entry e)) = 0"
  by (simp_all add: clear_entry_def next_entry_def entry_node_def is_end_def is_standard_def shape_def)

lemma first_pass:
  assumes "entry_iterate (check_entry_size_and_hooks sz hes ufs) sz i b s = Some (Ret (0, b', s'))"
  shows "\<exists>ps. walk b sz i ps \<and> (\<forall>p \<in> set ps. in_bounds b sz p)
    \<and> (\<forall>p. b' p = (if p \<in> set ps then map_option clear_entry (b p) else b p))
    \<and> (\<forall>h. fst s' h = (if h < 5 \<and> hes h \<in> set ps then hes h else fst s h))
    \<and> (\<forall>h. fst (snd s') h = (if h < 5 \<and> ufs h \<in> set ps then ufs h else fst (snd s) h))"
  using assms
proof (induction rule: iterate_success)
  case (stop i b s)
  then show ?case by (intro exI [of _ "[]"]) (auto intro: walk_done)
next
  case (step i b s b1 s1 e b' s')
  obtain he uf n where s: "s = (he, uf, n)" by (cases s) auto
  from step.hyps(2) obtain e0 where e0: "b i = Some e0" "b1 = b(i \<mapsto> clear_entry e0)"
    "144 \<le> unat (next_offset e0)" "unat i + 112 < unat sz"
    "s1 = (\<lambda>h. if h < 5 \<and> i = hes h then hes h else he h, \<lambda>h. if h < 5 \<and> i = ufs h then ufs h else uf h, n + 1)"
    by (auto simp: check_entry_size_and_hooks_def s clear_entry_def split: if_splits option.splits)
  with step.hyps(3) have e: "e = clear_entry e0" by simp
  obtain ps where ps: "walk b1 sz (next_entry i e) ps" "\<forall>p \<in> set ps. in_bounds b1 sz p"
    "\<forall>p. b' p = (if p \<in> set ps then map_option clear_entry (b1 p) else b1 p)"
    "\<forall>h. fst s' h = (if h < 5 \<and> hes h \<in> set ps then hes h else fst s1 h)"
    "\<forall>h. fst (snd s') h = (if h < 5 \<and> ufs h \<in> set ps then ufs h else fst (snd s1) h)"
    using step.IH by blast
  have nx: "nxt b p = nxt b1 p" for p by (simp add: nxt_def e0)
  have "walk b sz (next_entry i e0) ps" using walk_cong [OF ps(1) nx] e by simp
  then have "walk b sz i (i # ps)" by (rule walk_step [of _ _ b, OF step.hyps(1) e0(1)])
  moreover have "in_bounds b sz p" if "p \<in> set (i # ps)" for p
    using ps(2) that e0 by (cases "p = i") (auto simp: in_bounds_def)
  moreover have "b' p = (if p \<in> set (i # ps) then map_option clear_entry (b p) else b p)" for p
    using ps(3) e0 by auto
  ultimately show ?case using ps(4,5) e0(5) s by (intro exI [of _ "i # ps"]) auto
qed

text \<open>The registry after any sequence of module loads: the standard target is the only one
  without a function.\<close>

definition reg_ok :: "('w, 'm, 't) xt_af \<Rightarrow> bool" where
  "reg_ok xt \<longleftrightarrow> (\<forall>t \<in> set (xt_targets xt). xt_target t = None \<longleftrightarrow> xt_name t = '''')"

definition modprobe_ok :: "(string \<Rightarrow> ('w, 'm, 't) xt_af \<Rightarrow> ('w, 'm, 't) xt_af) \<Rightarrow> bool" where
  "modprobe_ok modprobe \<longleftrightarrow> (\<forall>n xt. reg_ok xt \<longrightarrow> reg_ok (modprobe n xt))"

text \<open>The second pass resolves the matches and the target of each entry.\<close>

definition checked :: "('w, 'm, 't) ipt_entry \<Rightarrow> ('w, 'm, 't) ipt_entry \<Rightarrow> bool" where
  "checked e e' \<longleftrightarrow> (\<exists>n r t. target_u (target e) = TUser n r \<and> target_u (target e') = TKernel t
       \<and> xt_name t = n \<and> (xt_target t = None \<longleftrightarrow> xt_name t = ''''))
     \<and> ip e' = ip e \<and> target_offset e' = target_offset e \<and> next_offset e' = next_offset e
     \<and> comefrom e' = comefrom e \<and> counters e' = counters e \<and> verdict (target e') = verdict (target e)"

lemma checked_standard: "checked e e' \<Longrightarrow> is_standard e' = is_standard e"
  by (auto simp: checked_def is_standard_def)

lemma checked_node:
  "checked e e' \<Longrightarrow> is_end e' = is_end e \<and> entry_node p e' = entry_node p e \<and> next_entry p e' = next_entry p e"
  using checked_standard [of e e'] by (auto simp: checked_def is_end_def entry_node_def next_entry_def)

lemma request_match_reg: "modprobe_ok modprobe \<Longrightarrow> reg_ok xt \<Longrightarrow> request_match modprobe n r (xt, w) = (f, xt') \<Longrightarrow> reg_ok xt'"
  by (auto simp: request_match_def modprobe_ok_def split: found.splits if_splits)

lemma check_match_reg:
  assumes "modprobe_ok modprobe" "reg_ok xt" "check_match modprobe name ipp hm m (j, xt, w) = (r, m', j', xt', w')"
  shows "reg_ok xt'"
  using assms request_match_reg [of modprobe xt]
  by (auto simp: check_match_def Let_def split: match_u.splits prod.splits found.splits option.splits if_splits)

lemma match_iterate_reg:
  assumes "modprobe_ok modprobe"
  shows "match_iterate (check_match modprobe name ipp hm) i toff ms (j, xt, w) = (r, ms', j', xt', w')
    \<Longrightarrow> reg_ok xt \<Longrightarrow> reg_ok xt'"
proof (induction ms arbitrary: i j xt w r ms' j' xt' w')
  case (Cons m ms)
  obtain r1 m1 j1 xt1 w1 where c: "check_match modprobe name ipp hm m (j, xt, w) = (r1, m1, j1, xt1, w1)"
    by (metis prod_cases5)
  have "reg_ok xt1" by (rule check_match_reg [OF assms Cons.prems(2) c])
  with Cons c show ?case by (fastforce split: if_splits prod.splits)
qed simp

lemma request_target_Found:
  assumes "modprobe_ok modprobe" "reg_ok xt" "request_target modprobe n r (xt, w) = (Found t w', xt')"
  shows "reg_ok xt'" "xt_name t = n" "xt_target t = None \<longleftrightarrow> xt_name t = ''''"
proof -
  obtain xt1 where f: "xt_find_target xt1 n r w = Found t w'" "xt' = xt1" "reg_ok xt1"
    using assms by (auto simp: request_target_def modprobe_ok_def split: found.splits if_splits)
  then show "reg_ok xt'" by simp
  from xt_find_target_Found [OF f(1)] show "xt_name t = n" by simp
  from xt_find_target_Found [OF f(1)] f(3) show "xt_target t = None \<longleftrightarrow> xt_name t = ''''"
    by (auto simp: reg_ok_def)
qed

lemma check_entry_success:
  assumes "modprobe_ok modprobe" "reg_ok xt"
    and "check_entry modprobe name sz p b (i, xt, w) = Ret (0, b', i', xt', w')"
  shows "reg_ok xt' \<and> (\<exists>e e'. b p = Some e \<and> b' = b(p \<mapsto> e') \<and> checked e e')"
proof -
  obtain e where e: "b p = Some e" using assms(3) by (auto simp: check_entry_def split: option.splits)
  obtain r ms j xt1 w1 where mi: "match_iterate (check_match modprobe name (ip e) (comefrom e)) sizeof_ipt_entry
      (unat (target_offset e)) (matches e) (0, xt, w) = (r, ms, j, xt1, w1)"
    by (metis prod_cases5)
  have x1: "reg_ok xt1" by (rule match_iterate_reg [OF assms(1) mi assms(2)])
  note c = assms(3) [unfolded check_entry_def prod.case e option.case mi Let_def]
  obtain n k where tu: "target_u (target e) = TUser n k" and r: "r = 0"
    using c by (auto split: if_splits target_u.splits)
  obtain t w2 xt2 where rt: "request_target modprobe n k (xt1, w1) = (Found t w2, xt2)"
    using c tu r by (auto split: if_splits prod.splits found.splits simp: find_err_def)
  note t = request_target_Found [OF assms(1) x1 rt]
  show ?thesis
    using c tu r rt t e
    by (auto simp: checked_def split: if_splits option.splits prod.splits)
qed

lemma second_pass:
  assumes "entry_iterate (check_entry modprobe name sz) sz i b s = Some (Ret (0, b', s'))"
    and "modprobe_ok modprobe" "reg_ok (fst (snd s))"
  shows "\<exists>ps. walk b sz i ps \<and> (\<forall>p. p \<notin> set ps \<longrightarrow> b' p = b p)
    \<and> (\<forall>p \<in> set ps. \<exists>e e'. b p = Some e \<and> b' p = Some e' \<and> checked e e')"
  using assms(1,3)
proof (induction rule: iterate_success)
  case (stop i b s)
  then show ?case by (intro exI [of _ "[]"]) (auto intro: walk_done)
next
  case (step i b s b1 s1 e1 b' s')
  obtain n xt w where s: "s = (n, xt, w)" by (cases s) auto
  obtain n1 xt1 w1 where s1: "s1 = (n1, xt1, w1)" by (cases s1) auto
  obtain e where e: "b i = Some e" "b1 = b(i \<mapsto> e1)" "checked e e1" "reg_ok xt1"
    using check_entry_success [OF assms(2), of xt name sz i b n w b1 n1 xt1 w1] step s s1 by auto
  obtain ps where ps: "walk b1 sz (next_entry i e1) ps" "\<forall>p. p \<notin> set ps \<longrightarrow> b' p = b1 p"
    "\<forall>p \<in> set ps. \<exists>e e'. b1 p = Some e \<and> b' p = Some e' \<and> checked e e'"
    using step.IH e(4) unfolding s1 snd_conv fst_conv by blast
  have i: "i \<notin> set ps" using ps(3) e(2,3) by (auto simp: checked_def)
  have nx: "nxt b p = nxt b1 p" for p using e checked_node [OF e(3), of i] by (simp add: nxt_def)
  have "walk b sz (next_entry i e) ps"
    using walk_cong [OF ps(1) nx] checked_node [OF e(3), of i] by simp
  then have "walk b sz i (i # ps)" by (rule walk_step [of _ _ b, OF step.hyps(1) e(1)])
  moreover have "\<exists>e e'. b p = Some e \<and> b' p = Some e' \<and> checked e e'" if "p \<in> set (i # ps)" for p
    using ps(2,3) e i that by (cases "p = i") fastforce+
  ultimately show ?case using ps(2) e(2) by (intro exI [of _ "i # ps"]) auto
qed

subsection \<open>A successful translation\<close>

lemma translate_success:
  assumes "translate_table modprobe name vh newinfo sz num hes ufs (xt, w) = Some (Ret (0, ni, xt', w'))"
  obtains b1 he uf b2 n s where
    "entry_iterate (check_entry_size_and_hooks sz hes ufs) sz 0 (entries newinfo)
       (\<lambda>h. 0xFFFFFFFF, \<lambda>h. 0xFFFFFFFF, 0) = Some (Ret (0, b1, he, uf, n))"
    "hooks_assigned vh he uf"
    "mark_source_chains (newinfo\<lparr>size := sz, number := num, hook_entry := he, underflow := uf, entries := b1\<rparr>) vh
       = Some (Ret (True, b2))"
    "entry_iterate (check_entry modprobe name sz) sz 0 b2 (0, xt, w) = Some (Ret (0, entries ni, s))"
    "hook_entry ni = he" "underflow ni = uf"
  using assms
  by (auto simp: translate_table_def Let_def split: option.splits exec.splits prod.splits if_splits bool.splits)

lemma hooks_assigned_valid:
  assumes "hooks_assigned vh he uf" "h \<in> msc_hooks vh"
  shows "he h \<noteq> 0xFFFFFFFF" "uf h \<noteq> 0xFFFFFFFF"
  using assms by (auto simp: hooks_assigned_def msc_hooks_def valid_hook_def list_all_iff)

text \<open>The passes change nothing the graph depends on.\<close>

lemma checked_graph:
  assumes "\<forall>p. b' p = b p \<or> (\<exists>e e'. b p = Some e \<and> b' p = Some e' \<and> checked e e')"
  shows "graph b' = graph b" "nxt b' = nxt b" "policy_rule b u \<Longrightarrow> policy_rule b' u"
proof -
  have "graph b' p = graph b p \<and> nxt b' p = nxt b p" for p
    using assms [rule_format, of p]
    by (elim disjE exE conjE) (simp_all add: graph_def nxt_def checked_node)
  then show "graph b' = graph b" "nxt b' = nxt b" by (auto simp: fun_eq_iff)
  show "policy_rule b' u" if "policy_rule b u"
    using assms [rule_format, of u] that
  proof (elim disjE exE conjE)
    fix e e' assume "b u = Some e" "b' u = Some e'" and c: "checked e e'"
    moreover have "verdict (target e') = verdict (target e)" using c by (simp add: checked_def)
    ultimately show ?thesis using that checked_node [OF c] by (simp add: policy_rule_def)
  qed (simp add: policy_rule_def)
qed

lemma shape_strip: "map_option shape (c :: ('w, 'm, 't) ipt_entry option) = map_option shape (map_option strip c)"
  by (cases c) (simp_all add: shape_def strip_def)

lemma frame_same_shape: "frame b b' \<Longrightarrow> same_shape b b'"
  unfolding frame_def same_shape_def by (metis shape_strip)

text \<open>After the first pass and the loop check, on a blob whose entries are the visited ones.\<close>

lemma after_first_pass:
  assumes p1: "entry_iterate (check_entry_size_and_hooks sz hes ufs) sz 0 b
      (\<lambda>h. 0xFFFFFFFF, \<lambda>h. 0xFFFFFFFF, 0) = Some (Ret (0, b1, he, uf, n))"
    and dom: "dom b \<subseteq> starts b sz"
  obtains ps where "walk b sz 0 ps" "\<forall>p \<in> set ps. in_bounds b sz p" "\<forall>p. b p \<noteq> None \<longrightarrow> p \<in> set ps"
    "same_shape b b1" "cleared b1" "\<forall>h. uf h \<noteq> 0xFFFFFFFF \<longrightarrow> uf h = ufs h"
proof -
  obtain ps where ps: "walk b sz 0 ps" "\<forall>p \<in> set ps. in_bounds b sz p"
    "\<forall>p. b1 p = (if p \<in> set ps then map_option clear_entry (b p) else b p)"
    "\<forall>h. uf h = (if h < 5 \<and> ufs h \<in> set ps then ufs h else 0xFFFFFFFF)"
    using first_pass [OF p1] by auto
  have d: "p \<in> set ps" if "b p \<noteq> None" for p
    using dom that walk_unique [OF ps(1)] by (auto simp: starts_def)
  have b1: "b1 p = map_option clear_entry (b p)" for p using ps(3) d by (cases "b p") auto
  have "same_shape b b1" by (simp add: same_shape_def b1 option.map_comp o_def)
  moreover have "cleared b1" by (auto simp: cleared_def b1)
  ultimately show thesis using that [OF ps(1,2)] d ps(4) by metis
qed

lemma second_pass_result:
  assumes p2: "entry_iterate (check_entry modprobe name sz) sz 0 b2 (0, xt, w) = Some (Ret (0, b3, s))"
    and reg: "modprobe_ok modprobe" "reg_ok xt" and s2: "same_shape b b2"
    and ps: "walk b sz 0 ps" "\<forall>p. b p \<noteq> None \<longrightarrow> p \<in> set ps"
  shows "graph b3 = graph b" "nxt b3 = nxt b" "policy_rule b u \<Longrightarrow> policy_rule b3 u" "kernel_form b3"
proof -
  obtain qs where qs: "walk b2 sz 0 qs" "\<forall>p. p \<notin> set qs \<longrightarrow> b3 p = b2 p"
    "\<forall>p \<in> set qs. \<exists>e e'. b2 p = Some e \<and> b3 p = Some e' \<and> checked e e'"
    using second_pass [OF p2 reg(1)] reg(2) by auto
  have "walk b sz 0 qs" by (rule walk_cong [OF qs(1)]) (simp add: same_shape_nxt [OF s2])
  then have qp: "qs = ps" using walk_unique ps(1) by blast
  have c: "\<forall>p. b3 p = b2 p \<or> (\<exists>e e'. b2 p = Some e \<and> b3 p = Some e' \<and> checked e e')"
    using qs by blast
  note cg = checked_graph [OF c]
  show "graph b3 = graph b" "nxt b3 = nxt b"
    using cg same_shape_graph [OF s2] same_shape_nxt [OF s2] by simp_all
  show "policy_rule b u \<Longrightarrow> policy_rule b3 u" using cg(3) same_shape_policy [OF s2] by blast
  have "\<exists>e e'. b2 p = Some e \<and> b3 p = Some e' \<and> checked e e'" if "b3 p \<noteq> None" for p
  proof -
    have "b2 p \<noteq> None" using c [rule_format, of p] that by auto
    then have "b p \<noteq> None" using s2 unfolding same_shape_def by (metis option.map_disc_iff)
    then show ?thesis using ps(2) qs(3) qp by blast
  qed
  then show "kernel_form b3" unfolding kernel_form_def by (force simp: checked_def)
qed

lemma translate_runnable:
  assumes t: "translate_table modprobe name vh newinfo sz num hes ufs (xt, w) = Some (Ret (0, ni, xt', w'))"
    and reg: "modprobe_ok modprobe" "reg_ok xt" and sz: "unat sz < 2 ^ 31"
    and dom: "dom (entries newinfo) \<subseteq> starts (entries newinfo) sz"
    and h: "h \<in> msc_hooks vh" and pol: "policy_rule (entries newinfo) (ufs h)"
  shows "runnable ni h"
proof -
  obtain b1 he uf b2 n s where p1: "entry_iterate (check_entry_size_and_hooks sz hes ufs) sz 0 (entries newinfo)
      (\<lambda>h. 0xFFFFFFFF, \<lambda>h. 0xFFFFFFFF, 0) = Some (Ret (0, b1, he, uf, n))"
    and ha: "hooks_assigned vh he uf"
    and mk: "mark_source_chains (newinfo\<lparr>size := sz, number := num, hook_entry := he, underflow := uf, entries := b1\<rparr>) vh
       = Some (Ret (True, b2))"
    and p2: "entry_iterate (check_entry modprobe name sz) sz 0 b2 (0, xt, w) = Some (Ret (0, entries ni, s))"
    and ni: "hook_entry ni = he" "underflow ni = uf"
    by (rule translate_success [OF t])
  from after_first_pass [OF p1 dom]
  obtain ps where ps: "walk (entries newinfo) sz 0 ps" "\<forall>p \<in> set ps. in_bounds (entries newinfo) sz p"
    and d: "\<forall>p. entries newinfo p \<noteq> None \<longrightarrow> p \<in> set ps" and s1: "same_shape (entries newinfo) b1"
    and cl: "cleared b1" and uf: "\<forall>h. uf h \<noteq> 0xFFFFFFFF \<longrightarrow> uf h = ufs h" by blast
  have dag: "dag (graph b1) (he h)" and "frame b1 b2"
    using mark_source_chains_True [OF _ mk] cl h by (auto simp: marked_def)
  then have s2: "same_shape (entries newinfo) b2" using same_shape_trans [OF s1 frame_same_shape] by blast
  note r = second_pass_result [OF p2 reg s2 ps(1) d]
  have "nxt_inj (entries newinfo)"
    using walk_increasing [OF ps(1) sz ps(2)] d unfolding nxt_inj_def nxt_def
    by (metis map_option_is_None option.distinct(1))
  then have "nxt_inj (entries ni)" by (simp add: nxt_inj_def r(2))
  moreover have "uf h = ufs h" using uf hooks_assigned_valid(2) [OF ha h] by blast
  moreover have "dag (graph (entries ni)) (he h)" using dag r(1) same_shape_graph [OF s1] by simp
  ultimately show ?thesis using r(3,4) pol by (simp add: runnable_def ni)
qed

subsection \<open>Translation always ends\<close>

lemma iterate_total:
  assumes "walk b sz i ps"
    and "\<And>i b s b1 s1. fn i b s = Ret (0, b1, s1) \<Longrightarrow> nxt b1 = nxt b"
  shows "entry_iterate fn sz i b s \<noteq> None"
  using assms(1)
proof (induction ps arbitrary: i b s rule: list.induct)
  case Nil
  then have "\<not> i < sz" by (auto elim: walk.cases)
  then show ?case by (subst entry_iterate.simps) simp
next
  case (Cons p ps)
  then obtain e where e: "i < sz" "b i = Some e" "walk b sz (next_entry i e) ps" by (auto elim: walk.cases)
  have "entry_iterate fn sz (i + ucast (next_offset e1)) b1 s1 \<noteq> None"
    if r: "fn i b s = Ret (0, b1, s1)" "b1 i = Some e1" for b1 s1 e1
  proof -
    have n: "nxt b1 = nxt b" using assms(2) [OF r(1)] .
    then have "next_entry i e1 = next_entry i e" using e(2) r(2) by (metis nxt_def option.inject option.map(2))
    then show ?thesis using Cons.IH [OF walk_cong [OF e(3)]] n by (simp add: next_entry_def)
  qed
  then show ?case
    by (subst entry_iterate.simps) (auto simp: e split: exec.split prod.split option.split)
qed

lemma first_pass_total:
  assumes "unat sz < 2 ^ 31"
  shows "entry_iterate (check_entry_size_and_hooks sz hes ufs) sz i b s \<noteq> None"
proof (induction "unat sz - unat i" arbitrary: i b s rule: less_induct)
  case less
  have "entry_iterate (check_entry_size_and_hooks sz hes ufs) sz (i + ucast (next_offset e1)) b1 s1 \<noteq> None"
    if "i < sz" "check_entry_size_and_hooks sz hes ufs i b s = Ret (0, b1, s1)" "b1 i = Some e1" for b1 s1 e1
  proof -
    have "unat i + 112 < unat sz" "144 \<le> unat (next_offset e1)"
      using that(2,3) by (auto simp: check_entry_size_and_hooks_def split: prod.splits if_splits option.splits)
    then have "unat sz - unat (next_entry i e1) < unat sz - unat i"
      using next_entry_unat [OF assms, of i e1] by simp
    then show ?thesis using less [of "next_entry i e1"] by (simp add: next_entry_def)
  qed
  then show ?case
    by (subst entry_iterate.simps) (auto split: exec.split prod.split option.split)
qed

lemma check_entry_nxt:
  assumes "check_entry modprobe name sz p b s = Ret (r, b1, s1)"
  shows "nxt b1 = nxt b"
proof -
  have "nxt (b(p \<mapsto> e')) = nxt b" if "b p = Some e" "next_offset e' = next_offset e" for e e'
    using that by (auto simp: nxt_def fun_eq_iff next_entry_def)
  with assms show ?thesis
    by (auto simp: check_entry_def Let_def
        split: prod.splits option.splits if_splits target_u.splits found.splits)
qed

lemma cleanup_entry_nxt: "cleanup_entry p b s = Ret (r, b1, s1) \<Longrightarrow> nxt b1 = nxt b"
  by (auto simp: cleanup_entry_def Let_def split: prod.splits option.splits if_splits target_u.splits)

lemma iterate_nxt:
  fixes b :: "('w, 'm, 't) blob" and s :: 's
  assumes "entry_iterate fn sz i b s = Some (Ret (r, b', s'))"
    and pres: "\<And>i b s r b1 s1. fn i b s = Ret (r, b1, s1) \<Longrightarrow> nxt b1 = nxt b"
  shows "nxt b' = nxt b"
proof -
  define Q where "Q g z i b s y \<longleftrightarrow> (\<forall>r b' s'. y = Ret (r :: int, b', s') \<longrightarrow> g = fn \<longrightarrow> nxt b' = nxt b)"
    for g and z i :: u32 and b :: "('w, 'm, 't) blob" and s :: 's
      and y :: "(int \<times> ('w, 'm, 't) blob \<times> 's) exec"
  have "Q fn sz i b s (Ret (r, b', s'))"
  proof (rule entry_iterate.raw_induct [OF _ assms(1), where P = Q])
    fix f g z i b s y
    assume IH: "\<And>g z i b s y. f g z i b s = Some y \<Longrightarrow> Q g z i b s y"
      and u: "(if i < z then case g i b s of Fault \<Rightarrow> Some Fault | Ret (r, b', s') \<Rightarrow>
               if r \<noteq> 0 then Some (Ret (r, b', s'))
               else case b' i of None \<Rightarrow> Some Fault | Some e \<Rightarrow> f g z (i + ucast (next_offset e)) b' s'
             else Some (Ret (0, b, s))) = Some y"
    show "Q g z i b s y"
      unfolding Q_def
    proof (intro allI impI)
      fix r b' s' assume y: "y = Ret (r, b', s')" and g: "g = fn"
      then show "nxt b' = nxt b"
        using u pres IH unfolding Q_def
        by (auto split: if_splits exec.splits prod.splits option.splits)
    qed
  qed
  then show ?thesis by (simp add: Q_def)
qed

lemma mark_total:
  assumes p1: "entry_iterate (check_entry_size_and_hooks sz hes ufs) sz 0 b
      (\<lambda>h. 0xFFFFFFFF, \<lambda>h. 0xFFFFFFFF, 0) = Some (Ret (0, b1, he, uf, n))"
    and dom: "dom b \<subseteq> starts b sz" and b1: "entries info = b1"
  shows "mark_source_chains info vh \<noteq> None"
    and "mark_source_chains info vh = Some (Ret (True, b2)) \<Longrightarrow> \<exists>ps. walk b2 sz 0 ps"
proof -
  obtain ps where ps: "walk b sz 0 ps" "\<forall>p \<in> set ps. in_bounds b sz p" "\<forall>p. b p \<noteq> None \<longrightarrow> p \<in> set ps"
    "same_shape b b1" "cleared b1" "\<forall>h. uf h \<noteq> 0xFFFFFFFF \<longrightarrow> uf h = ufs h"
    by (rule after_first_pass [OF p1 dom])
  then have cl: "cleared (entries info)" by (simp add: b1)
  show "mark_source_chains info vh \<noteq> None"
    using mark_source_chains_outcome [OF cl, of vh] by (auto simp: fails_def)
  show "\<exists>ps. walk b2 sz 0 ps" if "mark_source_chains info vh = Some (Ret (True, b2))"
  proof
    have "frame b1 b2" using mark_source_chains_True(2) [OF cl that] by (simp add: marked_def b1)
    then show "walk b2 sz 0 ps"
      by (intro walk_cong [OF ps(1)]) (simp add: same_shape_nxt [OF ps(4)] frame_nxt)
  qed
qed



subsection \<open>The sample table\<close>

fun ret_zero :: "(int \<times> 'b) exec option \<Rightarrow> bool" where
  "ret_zero (Some (Ret (r, b))) = (r = 0)"
| "ret_zero _ = False"

lemma ret_zero_iff: "ret_zero r \<longleftrightarrow> (\<exists>b. r = Some (Ret (0, b)))"
  by (cases r rule: ret_zero.cases) auto

definition sample_translate :: "(int \<times> (unit, unit, unit) xt_table_info \<times> (unit, unit, unit) xt_af \<times> unit) exec option" where
  "sample_translate = translate_table (\<lambda>n xt. xt) ''filter'' 0x0E sample_info 1064 7 sample_hooks
     sample_underflows (sample_af, ())"

lemma sample_translated: "ret_zero sample_translate"
  by code_simp

lemma sample_walk: "walk sample_blob 1064 0 [0, 148, 296, 444, 592, 740, 888]"
  by (rule walk_step, simp, simp add: sample_blob_def, simp add: next_entry_def std_entry_def error_entry_def)+
    (rule walk_done, simp)

lemma sample_starts: "dom (entries sample_info) \<subseteq> starts (entries sample_info) 1064"
  using sample_walk by (auto simp: sample_info_def sample_dom starts_def)

lemma sample_policy: "policy_rule (entries sample_info) (sample_underflows 1)"
proof -
  have "is_end (std_entry ip_any (- 2))" by code_simp
  then show ?thesis by (simp add: policy_rule_def sample_info_def sample_underflows_def sample_blob_def)
      (simp add: std_entry_def)
qed

lemma sample_reg: "reg_ok sample_af" "modprobe_ok (\<lambda>n xt. xt)"
  by (auto simp: reg_ok_def modprobe_ok_def sample_af_def error_target_def standard_target_def)

lemma sample_input_valid: "1 \<in> msc_hooks 0x0E"
  by (simp add: msc_hooks_def valid_hook_def)



subsection \<open>The unchecked policy rule\<close>

text \<open>The sample table with a \<open>RETURN\<close> as the policy of FORWARD.\<close>

definition return_policy_info :: "(unit, unit, unit) xt_table_info" where
  "return_policy_info = sample_info\<lparr>entries := sample_blob(296 \<mapsto> std_entry ip_any (- 5))\<rparr>"

definition plain_skb :: sk_buff where
  "plain_skb = \<lparr>skb_data = [0x45, 0, 0, 20] @ replicate 16 0, ip_summed = 0, csum = 0, nfct = None,
     nfctinfo = 0, nfmark = 0, dst_pmtu = None, tailroom = 0, cloned = False, copy_fails = False\<rparr>"

fun accepted_then_faults :: "(int \<times> (unit, unit, unit) xt_table_info \<times> (unit, unit, unit) xt_af \<times> unit) exec option \<Rightarrow> bool" where
  "accepted_then_faults (Some (Ret (r, ni, xt, w))) =
     (r = 0 \<and> (case ipt_do_table plain_skb 2 None None ni () of Some Fault \<Rightarrow> True | _ \<Rightarrow> False))"
| "accepted_then_faults _ = False"


end
