(* ===== verification/Ip_Tables_Ctl.thy ===== *)
theory Ip_Tables_Ctl
  imports Translate
begin

section \<open>Loading and reading tables\<close>

text \<open>
  The control half of \<^verbatim>\<open>net/ipv4/netfilter/ip_tables.c\<close>: counters,
  \<open>copy_entries_to_user\<close>, \<open>get_entries\<close>, \<open>do_replace\<close>, \<open>do_add_counters\<close>,
  \<open>ipt_register_table\<close>, \<open>ipt_unregister_table\<close> and the two socket option handlers, for
  one CPU. Whether a copy from or to user space or an allocation succeeds is an input
  (\<open>uenv\<close>). User memory is the value copied in or out.
\<close>

record ('w, 'm, 't) kstate =
  k_xt :: "('w, 'm, 't) xt_af"
  k_world :: 'w

record uenv =
  copy_in :: bool
  copy_in2 :: bool
  copy_out :: bool
  alloc_info :: bool
  alloc_counters :: bool
  num_physpages :: u32

text \<open>Sequencing of computations that may fault or not return.\<close>

definition xbind :: "'a exec option \<Rightarrow> ('a \<Rightarrow> 'b exec option) \<Rightarrow> 'b exec option" where
  "xbind r k = (case r of None \<Rightarrow> None | Some Fault \<Rightarrow> Some Fault | Some (Ret x) \<Rightarrow> k x)"

declare xbind_def [code_unfold]

lemma xbind_simps [simp]:
  "xbind (Some (Ret x)) k = k x" "xbind (Some Fault) k = Some Fault" "xbind None k = None"
  by (simp_all add: xbind_def)

subsection \<open>Counters\<close>

definition set_entry_to_counter :: "u32 \<Rightarrow> ('w, 'm, 't) blob \<Rightarrow> xt_counters list
    \<Rightarrow> (int \<times> ('w, 'm, 't) blob \<times> xt_counters list) exec" where
  "set_entry_to_counter pos b tot =
     (case b pos of None \<Rightarrow> Fault | Some e \<Rightarrow> Ret (0, b, tot @ [counters e]))"

definition get_counters :: "('w, 'm, 't) xt_table_info \<Rightarrow> xt_counters list exec option" where
  "get_counters t =
     xbind (entry_iterate set_entry_to_counter (size t) 0 (entries t) [])
       (\<lambda>(r, b, tot). Some (Ret tot))"

definition add_counter_to_entry :: "xt_counters list \<Rightarrow> u32 \<Rightarrow> ('w, 'm, 't) blob \<Rightarrow> nat
    \<Rightarrow> (int \<times> ('w, 'm, 't) blob \<times> nat) exec" where
  "add_counter_to_entry addme pos b i =
     (case b pos of
        None \<Rightarrow> Fault
      | Some e \<Rightarrow>
          if i < length addme
          then Ret (0, b(pos \<mapsto> e\<lparr>counters := add_counter (counters e) (bcnt (addme ! i)) (pcnt (addme ! i))\<rparr>), i + 1)
          else Fault)"

subsection \<open>Reading a table\<close>

text \<open>An entry as user space gets it: the counters of the snapshot, and the names of the
  matches and the target in place of the kernel pointers.\<close>

definition user_match :: "('w, 'm) ipt_entry_match \<Rightarrow> ('w, 'm) ipt_entry_match" where
  "user_match m =
     (case match_u m of
        MKernel k \<Rightarrow> m\<lparr>match_u := MUser (xm_name k) (xm_revision k)\<rparr>
      | MUser n r \<Rightarrow> m)"

definition user_target :: "('w, 't) ipt_entry_target \<Rightarrow> ('w, 't) ipt_entry_target" where
  "user_target t =
     (case target_u t of
        TKernel k \<Rightarrow> t\<lparr>target_u := TUser (xt_name k) (xt_revision k)\<rparr>
      | TUser n r \<Rightarrow> t)"

definition user_entry :: "xt_counters \<Rightarrow> ('w, 'm, 't) ipt_entry \<Rightarrow> ('w, 'm, 't) ipt_entry" where
  "user_entry c e = e\<lparr>counters := c,
     matches := fst (snd (match_iterate (\<lambda>m u. (0, user_match m, u)) sizeof_ipt_entry
                            (unat (target_offset e)) (matches e) ())),
     target := user_target (target e)\<rparr>"

text \<open>The loop over \<open>off\<close> and \<open>num\<close>; the user's copy is a second blob.\<close>

definition copy_entry_to_user :: "xt_counters list \<Rightarrow> u32 \<Rightarrow> ('w, 'm, 't) blob
    \<Rightarrow> nat \<times> ('w, 'm, 't) blob \<Rightarrow> (int \<times> ('w, 'm, 't) blob \<times> nat \<times> ('w, 'm, 't) blob) exec" where
  "copy_entry_to_user cs pos b s =
     (case b pos of
        None \<Rightarrow> Fault
      | Some e \<Rightarrow>
          if fst s < length cs
          then Ret (0, b, fst s + 1, (snd s)(pos \<mapsto> user_entry (cs ! fst s) e))
          else Fault)"

definition copy_entries_to_user :: "uenv \<Rightarrow> u32 \<Rightarrow> ('w, 'm, 't) xt_table
    \<Rightarrow> (int \<times> ('w, 'm, 't) blob option) exec option" where
  "copy_entries_to_user env total_size table =
     (let private = tb_private table in
      if \<not> alloc_counters env then Some (Ret (- ENOMEM, None))
      else
        xbind (get_counters private) (\<lambda>counters.
        if \<not> copy_out env then Some (Ret (- EFAULT, None))
        else
          xbind (entry_iterate (copy_entry_to_user counters) total_size 0 (entries private)
                   (0, entries private))
            (\<lambda>(r, b, n, user). Some (Ret (0, Some user)))))"

definition get_entries :: "uenv \<Rightarrow> string \<Rightarrow> u32 \<Rightarrow> ('w, 'm, 't) kstate
    \<Rightarrow> (int \<times> ('w, 'm, 't) blob option \<times> ('w, 'm, 't) kstate) exec option" where
  "get_entries env name sz k =
     (case xt_find_table_lock (k_xt k) name (k_world k) of
        None \<Rightarrow> Some (Ret (- ENOENT, None, k))
      | Some (t, w) \<Rightarrow>
          let k' = k\<lparr>k_world := tb_put t w\<rparr> in
          if sz = size (tb_private t)
          then xbind (copy_entries_to_user env (size (tb_private t)) t)
                 (\<lambda>(ret, user). Some (Ret (ret, user, k')))
          else Some (Ret (- EINVAL, None, k')))"

subsection \<open>Loading a table\<close>

record ('w, 'm, 't) ipt_replace =
  rp_name :: string
  rp_valid_hooks :: u32
  rp_num_entries :: u32
  rp_size :: u32
  rp_hook_entry :: "nat \<Rightarrow> u32"
  rp_underflow :: "nat \<Rightarrow> u32"
  rp_num_counters :: u32
  rp_entries :: "('w, 'm, 't) blob"

abbreviation (input) sizeof_ipt_replace :: u32 where "sizeof_ipt_replace \<equiv> 92"
abbreviation (input) sizeof_xt_table_info :: u32 where "sizeof_xt_table_info \<equiv> 56"
abbreviation (input) INT_MAX :: u32 where "INT_MAX \<equiv> 0x7FFFFFFF"
abbreviation (input) SMP_CACHE_BYTES :: u32 where "SMP_CACHE_BYTES \<equiv> 32"

definition xt_alloc_table_info :: "uenv \<Rightarrow> u32 \<Rightarrow> bool" where
  "xt_alloc_table_info env sz \<longleftrightarrow>
     \<not> num_physpages env < drop_bit 12 ((sz + (SMP_CACHE_BYTES - 1)) AND NOT (SMP_CACHE_BYTES - 1)) + 2
     \<and> alloc_info env"

definition new_info :: "u32 \<Rightarrow> ('w, 'm, 't) blob \<Rightarrow> ('w, 'm, 't) xt_table_info" where
  "new_info sz b = \<lparr>size = sz, number = 0, initial_entries = 0, hook_entry = (\<lambda>h. 0),
     underflow = (\<lambda>h. 0), entries = b\<rparr>"

text \<open>\<open>IPT_ENTRY_ITERATE(entries, size, cleanup_entry, NULL)\<close>\<close>

definition cleanup_all :: "('w, 'm, 't) xt_table_info \<Rightarrow> 'w \<Rightarrow> 'w exec option" where
  "cleanup_all info w =
     xbind (entry_iterate cleanup_entry (size info) 0 (entries info) (None, w))
       (\<lambda>(r, b, i, w'). Some (Ret w'))"

definition update_table :: "('w, 'm, 't) xt_table \<Rightarrow> ('w, 'm, 't) xt_af \<Rightarrow> ('w, 'm, 't) xt_af" where
  "update_table t xt = xt\<lparr>xt_tables := map (\<lambda>u. if tb_name u = tb_name t then t else u) (xt_tables xt)\<rparr>"

text \<open>The table lookup of \<open>do_replace\<close>, with the module of the table loaded on demand.\<close>

definition request_table :: "(string \<Rightarrow> ('w, 'm, 't) xt_af \<Rightarrow> ('w, 'm, 't) xt_af) \<Rightarrow> string
    \<Rightarrow> ('w, 'm, 't) xt_af \<times> 'w \<Rightarrow> (('w, 'm, 't) xt_table \<times> 'w) option \<times> ('w, 'm, 't) xt_af" where
  "request_table modprobe name s =
     (case s of (xt, w) \<Rightarrow>
        (case xt_find_table_lock xt name w of
           Some tw \<Rightarrow> (Some tw, xt)
         | None \<Rightarrow> (xt_find_table_lock (modprobe (''iptable_'' @ name) xt) name w, modprobe (''iptable_'' @ name) xt)))"

text \<open>The module reference of the table: one is held while user rules are loaded.\<close>

definition replace_refs :: "('w, 'm, 't) xt_table \<Rightarrow> u32 \<Rightarrow> u32 \<Rightarrow> u32 \<Rightarrow> 'w \<Rightarrow> 'w" where
  "replace_refs t old_number initial new_number w =
     (let w1 = (if initial < old_number \<or> new_number \<le> initial then tb_put t w else w)
      in if initial < old_number \<and> new_number \<le> initial then tb_put t w1 else w1)"

text \<open>From the label \<open>put_module\<close> and \<open>free_newinfo_counters_untrans\<close> on.\<close>

definition replace_undo :: "('w, 'm, 't) xt_table_info \<Rightarrow> int \<Rightarrow> ('w, 'm, 't) xt_af \<Rightarrow> 'w
    \<Rightarrow> (int \<times> xt_counters list option \<times> ('w, 'm, 't) kstate) exec option" where
  "replace_undo newinfo ret xt w =
     xbind (cleanup_all newinfo w) (\<lambda>w'. Some (Ret (ret, None, \<lparr>k_xt = xt, k_world = w'\<rparr>)))"

text \<open>\<open>NR_CPUS\<close> is 1 and \<open>sizeof(struct xt_counters)\<close> is 16, so the two size limits are
  \<open>INT_MAX - sizeof_xt_table_info - SMP_CACHE_BYTES\<close> and \<open>INT_MAX / 16\<close>.\<close>

definition do_replace :: "(string \<Rightarrow> ('w, 'm, 't) xt_af \<Rightarrow> ('w, 'm, 't) xt_af) \<Rightarrow> uenv
    \<Rightarrow> ('w, 'm, 't) ipt_replace \<Rightarrow> u32 \<Rightarrow> ('w, 'm, 't) kstate
    \<Rightarrow> (int \<times> xt_counters list option \<times> ('w, 'm, 't) kstate) exec option" where
  "do_replace modprobe env tmp len k =
     (if \<not> copy_in env then Some (Ret (- EFAULT, None, k))
      else if len \<noteq> sizeof_ipt_replace + rp_size tmp then Some (Ret (- ENOPROTOOPT, None, k))
      else if INT_MAX - sizeof_xt_table_info - SMP_CACHE_BYTES \<le> rp_size tmp
      then Some (Ret (- ENOMEM, None, k))
      else if drop_bit 4 INT_MAX \<le> rp_num_counters tmp then Some (Ret (- ENOMEM, None, k))
      else if \<not> xt_alloc_table_info env (rp_size tmp) then Some (Ret (- ENOMEM, None, k))
      else if \<not> copy_in2 env then Some (Ret (- EFAULT, None, k))
      else if \<not> alloc_counters env then Some (Ret (- ENOMEM, None, k))
      else
        xbind (translate_table modprobe (rp_name tmp) (rp_valid_hooks tmp)
                 (new_info (rp_size tmp) (rp_entries tmp)) (rp_size tmp) (rp_num_entries tmp)
                 (rp_hook_entry tmp) (rp_underflow tmp) (k_xt k, k_world k))
          (\<lambda>(ret, newinfo, xt, w).
             if ret \<noteq> 0 then Some (Ret (ret, None, \<lparr>k_xt = xt, k_world = w\<rparr>))
             else
               (case request_table modprobe (rp_name tmp) (xt, w) of
                  (None, xt1) \<Rightarrow> replace_undo newinfo (- ENOENT) xt1 w
                | (Some (t, w1), xt1) \<Rightarrow>
                    if rp_valid_hooks tmp \<noteq> tb_valid_hooks t
                    then replace_undo newinfo (- EINVAL) xt1 (tb_put t w1)
                    else
                      (case xt_replace_table t (rp_num_counters tmp) newinfo of
                         Inr err \<Rightarrow> replace_undo newinfo err xt1 (tb_put t w1)
                       | Inl (oldinfo, t') \<Rightarrow>
                           (let w2 = replace_refs t (number oldinfo) (initial_entries oldinfo)
                                       (number newinfo) w1
                            in xbind (get_counters oldinfo) (\<lambda>cs.
                               xbind (cleanup_all oldinfo w2) (\<lambda>w3.
                               Some (Ret (if copy_out env then 0 else - EFAULT,
                                          if copy_out env then Some cs else None,
                                          \<lparr>k_xt = update_table t' xt1, k_world = w3\<rparr>)))))))))"

subsection \<open>Adding counters\<close>

abbreviation (input) sizeof_xt_counters_info :: u32 where "sizeof_xt_counters_info \<equiv> 36"

text \<open>The user's \<open>struct xt_counters_info\<close>: a table name, the claimed number and the counters.\<close>

definition do_add_counters :: "uenv \<Rightarrow> string \<Rightarrow> u32 \<Rightarrow> xt_counters list \<Rightarrow> u32 \<Rightarrow> ('w, 'm, 't) kstate
    \<Rightarrow> (int \<times> ('w, 'm, 't) kstate) exec option" where
  "do_add_counters env name num_counters addme len k =
     (if \<not> copy_in env then Some (Ret (- EFAULT, k))
      else if len \<noteq> sizeof_xt_counters_info + num_counters * 16
      then Some (Ret (- EINVAL, k))
      else if \<not> alloc_info env then Some (Ret (- ENOMEM, k))
      else if \<not> copy_in2 env then Some (Ret (- EFAULT, k))
      else
        (case xt_find_table_lock (k_xt k) name (k_world k) of
           None \<Rightarrow> Some (Ret (- ENOENT, k))
         | Some (t, w) \<Rightarrow>
             let private = tb_private t in
             if number private \<noteq> num_counters
             then Some (Ret (- EINVAL, k\<lparr>k_world := tb_put t w\<rparr>))
             else
               xbind (entry_iterate (add_counter_to_entry addme) (size private) 0 (entries private) 0)
                 (\<lambda>(r, b, i).
                    Some (Ret (0, \<lparr>k_xt = update_table (t\<lparr>tb_private := private\<lparr>entries := b\<rparr>\<rparr>) (k_xt k),
                                   k_world = tb_put t w\<rparr>)))))"

subsection \<open>Registration\<close>

definition bootstrap :: "('w, 'm, 't) xt_table_info" where
  "bootstrap = \<lparr>size = 0, number = 0, initial_entries = 0, hook_entry = (\<lambda>h. 0), underflow = (\<lambda>h. 0),
     entries = Map.empty\<rparr>"

text \<open>As written, the result of a failed \<open>xt_register_table\<close> is not the error: \<open>ret\<close> still
  holds the 0 of \<open>translate_table\<close>.\<close>

definition ipt_register_table :: "(string \<Rightarrow> ('w, 'm, 't) xt_af \<Rightarrow> ('w, 'm, 't) xt_af) \<Rightarrow> uenv
    \<Rightarrow> ('w, 'm, 't) xt_table \<Rightarrow> ('w, 'm, 't) ipt_replace \<Rightarrow> ('w, 'm, 't) kstate
    \<Rightarrow> (int \<times> ('w, 'm, 't) kstate) exec option" where
  "ipt_register_table modprobe env table repl k =
     (if \<not> xt_alloc_table_info env (rp_size repl) then Some (Ret (- ENOMEM, k))
      else
        xbind (translate_table modprobe (tb_name table) (tb_valid_hooks table)
                 (new_info (rp_size repl) (rp_entries repl)) (rp_size repl) (rp_num_entries repl)
                 (rp_hook_entry repl) (rp_underflow repl) (k_xt k, k_world k))
          (\<lambda>(ret, newinfo, xt, w).
             if ret \<noteq> 0 then Some (Ret (ret, \<lparr>k_xt = xt, k_world = w\<rparr>))
             else
               (case xt_register_table table bootstrap newinfo xt of
                  (r, xt') \<Rightarrow> if r \<noteq> 0 then Some (Ret (ret, \<lparr>k_xt = xt', k_world = w\<rparr>))
                              else Some (Ret (0, \<lparr>k_xt = xt', k_world = w\<rparr>)))))"

definition ipt_unregister_table :: "('w, 'm, 't) xt_table \<Rightarrow> ('w, 'm, 't) kstate \<Rightarrow> ('w, 'm, 't) kstate exec option" where
  "ipt_unregister_table table k =
     (case xt_unregister_table table (k_xt k) of
        (private, xt) \<Rightarrow>
          xbind (cleanup_all private (k_world k)) (\<lambda>w. Some (Ret \<lparr>k_xt = xt, k_world = w\<rparr>)))"

subsection \<open>The ICMP match\<close>

record ipt_icmp =
  icmp_type :: u8
  icmp_code0 :: u8
  icmp_code1 :: u8
  icmp_invflags :: u8

definition icmp_type_code_match :: "u8 \<Rightarrow> u8 \<Rightarrow> u8 \<Rightarrow> u8 \<Rightarrow> u8 \<Rightarrow> bool \<Rightarrow> bool" where
  "icmp_type_code_match test_type min_code max_code typ code invert \<longleftrightarrow>
     (test_type = 0xFF \<or> (typ = test_type \<and> min_code \<le> code \<and> code \<le> max_code)) \<noteq> invert"

text \<open>The result and \<open>*hotdrop\<close>.\<close>

definition icmp_match :: "sk_buff \<Rightarrow> ipt_icmp \<Rightarrow> u16 \<Rightarrow> nat \<Rightarrow> bool \<times> bool" where
  "icmp_match skb icmpinfo offset protoff =
     (if offset \<noteq> 0 then (False, False)
      else
        (case skb_header_pointer skb protoff 8 of
           None \<Rightarrow> (False, True)
         | Some ic \<Rightarrow>
             (icmp_type_code_match (icmp_type icmpinfo) (icmp_code0 icmpinfo) (icmp_code1 icmpinfo)
                (icmph_type ic) (icmph_code ic) (icmp_invflags icmpinfo AND 0x01 \<noteq> 0), False)))"

definition icmp_checkentry :: "ipt_ip \<Rightarrow> ipt_icmp \<Rightarrow> u32 \<Rightarrow> bool" where
  "icmp_checkentry i icmpinfo matchsize \<longleftrightarrow>
     proto i = 1 \<and> invflags i AND IPT_INV_PROTO = 0 \<and> matchsize = of_nat (IPT_ALIGN 4)
     \<and> icmp_invflags icmpinfo AND NOT 0x01 = 0"

subsection \<open>Counter snapshots\<close>

text \<open>The counters of the entries, in the order of the blob.\<close>

definition entry_counters :: "('w, 'm, 't) blob \<Rightarrow> u32 list \<Rightarrow> xt_counters list" where
  "entry_counters b ps = map (\<lambda>p. counters (the (b p))) ps"

lemma get_counters_walk:
  "walk b sz i ps \<Longrightarrow> entry_iterate set_entry_to_counter sz i b cs = Some (Ret (0, b, cs @ entry_counters b ps))"
proof (induction arbitrary: cs rule: walk.induct)
  case (walk_done i)
  then show ?case by (subst entry_iterate.simps) (simp add: entry_counters_def)
next
  case (walk_step i e ps)
  have c: "set_entry_to_counter i b cs = Ret (0, b, cs @ [counters e])"
    by (simp add: set_entry_to_counter_def walk_step.hyps)
  show ?case
    by (subst entry_iterate.simps)
      (simp add: c walk_step.hyps walk_step.IH [unfolded next_entry_def] entry_counters_def)
qed

lemma get_counters_eq:
  "walk (entries t) (size t) 0 ps \<Longrightarrow> get_counters t = Some (Ret (entry_counters (entries t) ps))"
  by (simp add: get_counters_def get_counters_walk)

text \<open>\<open>add_counter_to_entry\<close> over the offsets of the blob.\<close>

definition sum_counters :: "xt_counters \<Rightarrow> xt_counters \<Rightarrow> xt_counters" where
  "sum_counters c a = add_counter c (bcnt a) (pcnt a)"

definition bump :: "xt_counters \<Rightarrow> u32 \<Rightarrow> ('w, 'm, 't) blob \<Rightarrow> ('w, 'm, 't) blob" where
  "bump c p b = b(p := map_option (\<lambda>e. e\<lparr>counters := sum_counters (counters e) c\<rparr>) (b p))"

lemma bump_simps:
  "q \<noteq> p \<Longrightarrow> bump c p b q = b q" "b p = Some e \<Longrightarrow> bump c p b p = Some (e\<lparr>counters := sum_counters (counters e) c\<rparr>)"
  "bump c p b q = None \<longleftrightarrow> b q = None" "nxt (bump c p b) = nxt b"
  by (cases "b p"; auto simp: bump_def nxt_def next_entry_def fun_eq_iff)+

fun add_at :: "xt_counters list \<Rightarrow> u32 list \<Rightarrow> ('w, 'm, 't) blob \<Rightarrow> ('w, 'm, 't) blob" where
  "add_at (c # cs) (p # ps) b = add_at cs ps (bump c p b)"
| "add_at _ _ b = b"

lemma add_counters_walk:
  assumes "walk b sz i ps" "length cs \<le> n + length ps" "n + length ps \<le> length addme" "drop n addme = cs"
  shows "entry_iterate (add_counter_to_entry addme) sz i b n = Some (Ret (0, add_at cs ps b, n + length ps))"
  using assms
proof (induction ps arbitrary: i b n cs rule: list.induct)
  case Nil
  then have "\<not> i < sz" by (auto elim: walk.cases)
  then show ?case by (subst entry_iterate.simps) simp
next
  case (Cons p ps)
  from Cons.prems(1) obtain e where e: "i < sz" "b i = Some e" "walk b sz (next_entry i e) ps" and p: "p = i"
    by (auto elim: walk.cases)
  from Cons.prems(3) have n: "n < length addme" by simp
  then have cs: "cs = addme ! n # drop (n + 1) addme" using Cons.prems(4) by (simp add: Cons_nth_drop_Suc)
  let ?b = "bump (addme ! n) i b"
  have f: "add_counter_to_entry addme i b n = Ret (0, ?b, n + 1)"
    by (simp add: add_counter_to_entry_def e(2) n bump_def sum_counters_def)
  have "walk ?b sz (next_entry i e) ps" by (rule walk_cong [OF e(3)]) (simp add: bump_simps)
  then have "entry_iterate (add_counter_to_entry addme) sz (next_entry i e) ?b (n + 1)
      = Some (Ret (0, add_at (drop (n + 1) addme) ps ?b, n + 1 + length ps))"
    by (rule Cons.IH) (use Cons.prems n in auto)
  then show ?case
    by (subst entry_iterate.simps) (simp add: f e bump_simps(2) [of b i e, OF e(2)] cs p next_entry_def)
qed

lemma add_at_other: "p \<notin> set ps \<Longrightarrow> add_at cs ps b p = b p"
  by (induction cs ps b rule: add_at.induct) (auto simp: bump_simps)

lemma entry_counters_bump: "p \<notin> set ps \<Longrightarrow> entry_counters (bump c p b) ps = entry_counters b ps"
  by (auto simp: entry_counters_def bump_def)

lemma entry_counters_add_at:
  assumes "distinct ps" "length cs = length ps" "\<forall>p \<in> set ps. b p \<noteq> None"
  shows "entry_counters (add_at cs ps b) ps = map2 sum_counters (entry_counters b ps) cs"
  using assms
proof (induction cs ps b rule: add_at.induct)
  case (1 c cs p ps b)
  obtain e where e: "b p = Some e" using 1 by auto
  have "add_at cs ps (bump c p b) p = bump c p b p" using 1(2) by (intro add_at_other) simp
  moreover have "entry_counters (add_at cs ps (bump c p b)) ps = map2 sum_counters (entry_counters b ps) cs"
    using 1 by (simp add: entry_counters_bump bump_simps(3))
  ultimately show ?case by (simp add: entry_counters_def e bump_simps(2) [of b p e, OF e])
qed (auto simp: entry_counters_def)

lemma walk_entries: "walk b sz i ps \<Longrightarrow> p \<in> set ps \<Longrightarrow> b p \<noteq> None"
  by (induction rule: walk.induct) auto

lemma nxt_add_at: "nxt (add_at cs qs b) = nxt b"
  by (induction cs qs b rule: add_at.induct) (simp_all add: bump_simps)

lemma walk_add_at: "walk b sz i ps \<Longrightarrow> walk (add_at cs qs b) sz i ps"
  by (erule walk_cong) (simp add: nxt_add_at)

lemma find_table_update:
  assumes "find_table_loop ts name w = Some (t, w1)" "tb_name t' = tb_name t" "tb_get t' = tb_get t"
    "distinct (map tb_name ts)"
  shows "find_table_loop (map (\<lambda>u. if tb_name u = tb_name t' then t' else u) ts) name w = Some (t', w1)"
proof -
  have n: "tb_name t = name \<and> t \<in> set ts" if "find_table_loop ts name w = Some (t, w1)" for ts
    using that by (induction ts) (auto split: if_splits option.splits)
  show ?thesis
    using assms
  proof (induction ts)
    case (Cons u ts)
    show ?case
    proof (cases "tb_name u = name")
      case True
      then have "tb_name t \<noteq> name \<or> t \<notin> set ts" using Cons.prems(4) by (metis distinct.simps(2) image_eqI list.set_map list.simps(9))
      then have "find_table_loop ts name w \<noteq> Some (t, w1)" using n [of ts] by blast
      with True Cons.prems show ?thesis using n by (auto split: option.splits)
    next
      case False
      with Cons n [OF Cons.prems(1)] show ?thesis by auto
    qed
  qed simp
qed

text \<open>C6: \<open>do_add_counters\<close> on a table whose entries are at the offsets \<open>ps\<close>: when the caller
  gives one counter per entry it succeeds, and a snapshot of the counters taken afterwards is
  the old snapshot plus the given counters, entry by entry (modulo 2 to the 64).\<close>

theorem do_add_counters_adds:
  assumes t: "xt_find_table_lock (k_xt k) name (k_world k) = Some (t, w)"
    and d: "distinct (map tb_name (xt_tables (k_xt k)))"
    and ps: "walk (entries (tb_private t)) (size (tb_private t)) 0 ps" "distinct ps"
    and n: "number (tb_private t) = num" "length addme = length ps"
    and len: "len = sizeof_xt_counters_info + num * 16"
    and env: "copy_in env" "copy_in2 env" "alloc_info env"
  shows "\<exists>k' t' w'. do_add_counters env name num addme len k = Some (Ret (0, k'))
    \<and> xt_find_table_lock (k_xt k') name (k_world k) = Some (t', w')
    \<and> get_counters (tb_private t')
        = Some (Ret (map2 sum_counters (entry_counters (entries (tb_private t)) ps) addme))"
proof -
  let ?p = "tb_private t"
  let ?t = "t\<lparr>tb_private := ?p\<lparr>entries := add_at addme ps (entries ?p)\<rparr>\<rparr>"
  have it: "entry_iterate (add_counter_to_entry addme) (size ?p) 0 (entries ?p) 0
      = Some (Ret (0, add_at addme ps (entries ?p), length ps))"
    using add_counters_walk [OF ps(1), of addme 0 addme] n by simp
  have f: "xt_find_table_lock (update_table ?t (k_xt k)) name (k_world k) = Some (?t, w)"
    using t d find_table_update [of "xt_tables (k_xt k)" name "k_world k" t w ?t]
    by (simp add: xt_find_table_lock_def update_table_def)
  have "get_counters (tb_private ?t)
      = Some (Ret (map2 sum_counters (entry_counters (entries ?p) ps) addme))"
    using get_counters_eq [of "tb_private ?t" ps] walk_add_at [OF ps(1)]
      entry_counters_add_at [OF ps(2) n(2) ballI [OF walk_entries [OF ps(1)]]] by simp
  then show ?thesis using t n len env f by (simp add: do_add_counters_def it Let_def)
qed

subsection \<open>Replacing the rules\<close>

lemma find_table_Some:
  "xt_find_table_lock xt name w = Some (t, w') \<Longrightarrow> t \<in> set (xt_tables xt) \<and> tb_name t = name"
proof -
  have "find_table_loop ts name w = Some (t, w') \<Longrightarrow> t \<in> set ts \<and> tb_name t = name" for ts
    by (induction ts) (auto split: if_splits option.splits)
  then show "xt_find_table_lock xt name w = Some (t, w') \<Longrightarrow> t \<in> set (xt_tables xt) \<and> tb_name t = name"
    by (simp add: xt_find_table_lock_def)
qed

lemma request_table_Some:
  "request_table modprobe name (xt, w) = (Some (t, w'), xt') \<Longrightarrow> t \<in> set (xt_tables xt') \<and> tb_name t = name"
  by (auto simp: request_table_def dest: find_table_Some split: option.splits)

lemma update_table_member:
  "t \<in> set (xt_tables xt) \<Longrightarrow> tb_name t' = tb_name t \<Longrightarrow> t' \<in> set (xt_tables (update_table t' xt))"
  by (force simp: update_table_def)

lemma xbind_Some:
  "xbind r f = Some (Ret y) \<longleftrightarrow> (\<exists>x. r = Some (Ret x) \<and> f x = Some (Ret y))"
  by (cases r) (auto simp: xbind_def split: exec.splits)

lemma replace_undo_ret: "replace_undo ni ret xt w = Some (Ret (r, cs, k')) \<Longrightarrow> r = ret"
  by (auto simp: replace_undo_def xbind_Some)

text \<open>A successful \<open>do_replace\<close> went through all its steps.\<close>

lemma do_replace_success:
  assumes "do_replace modprobe env tmp len k = Some (Ret (0, cs, k'))"
  obtains ni xt w t w1 xt1 t' old where
    "unat (rp_size tmp) < 2 ^ 31"
    "translate_table modprobe (rp_name tmp) (rp_valid_hooks tmp) (new_info (rp_size tmp) (rp_entries tmp))
       (rp_size tmp) (rp_num_entries tmp) (rp_hook_entry tmp) (rp_underflow tmp) (k_xt k, k_world k)
       = Some (Ret (0, ni, xt, w))"
    "request_table modprobe (rp_name tmp) (xt, w) = (Some (t, w1), xt1)"
    "rp_valid_hooks tmp = tb_valid_hooks t"
    "xt_replace_table t (rp_num_counters tmp) ni = Inl (old, t')" "k_xt k' = update_table t' xt1"
proof -
  have g: "copy_in env" "len = 92 + rp_size tmp" "rp_size tmp < 0x7FFFFFA7"
    "rp_num_counters tmp < 0x7FFFFFF" "xt_alloc_table_info env (rp_size tmp)" "copy_in2 env" "alloc_counters env"
    using assms by (auto simp: do_replace_def not_le split: if_splits)
  have sz: "unat (rp_size tmp) < 2 ^ 31" using g(3) by (simp add: word_less_nat_alt)
  have n: "\<not> 0x7FFFFFA7 \<le> rp_size tmp" "\<not> 0x7FFFFFF \<le> rp_num_counters tmp" using g by (simp_all add: not_le)
  note d = assms [unfolded do_replace_def]
  obtain ret ni xt w where tr: "translate_table modprobe (rp_name tmp) (rp_valid_hooks tmp)
       (new_info (rp_size tmp) (rp_entries tmp)) (rp_size tmp) (rp_num_entries tmp)
       (rp_hook_entry tmp) (rp_underflow tmp) (k_xt k, k_world k) = Some (Ret (ret, ni, xt, w))"
    using d g n by (auto simp: xbind_Some)
  have ret: "ret = 0" using d g n tr by (auto split: if_splits)
  obtain t w1 xt1 where rt: "request_table modprobe (rp_name tmp) (xt, w) = (Some (t, w1), xt1)"
    using d g n tr ret by (auto dest: replace_undo_ret split: prod.splits option.splits)
  have vh: "rp_valid_hooks tmp = tb_valid_hooks t"
    using d g n tr ret rt by (auto dest: replace_undo_ret split: if_splits)
  obtain old t' where x: "xt_replace_table t (rp_num_counters tmp) ni = Inl (old, t')"
    using d g n tr ret rt vh
    by (auto simp: xt_replace_table_def Let_def dest: replace_undo_ret split: sum.splits if_splits)
  have "k_xt k' = update_table t' xt1"
    using d g n tr ret rt vh x by (auto simp: xbind_Some Let_def split: if_splits)
  with that sz tr ret rt vh x show thesis by simp
qed

lemma runnable_initial: "runnable (ni\<lparr>initial_entries := n\<rparr>) h = runnable ni h"
  by (simp add: runnable_def)


subsection \<open>Examples\<close>

definition good_env :: uenv where
  "good_env = \<lparr>copy_in = True, copy_in2 = True, copy_out = True, alloc_info = True, alloc_counters = True,
     num_physpages = 4096\<rparr>"

definition sample_repl :: "u32 \<Rightarrow> (unit, unit, unit) ipt_replace" where
  "sample_repl n = \<lparr>rp_name = ''filter'', rp_valid_hooks = 0x0E, rp_num_entries = 7, rp_size = 1064,
     rp_hook_entry = sample_hooks, rp_underflow = sample_underflows, rp_num_counters = n,
     rp_entries = sample_blob\<rparr>"

definition filter_table :: "(unit, unit, unit) xt_table" where
  "filter_table = \<lparr>tb_name = ''filter'', tb_valid_hooks = 0x0E, tb_private = bootstrap, tb_get = Some, tb_put = id\<rparr>"

definition sample_kstate :: "(unit, unit, unit) kstate" where
  "sample_kstate = \<lparr>k_xt = sample_af\<lparr>xt_tables := [filter_table]\<rparr>, k_world = ()\<rparr>"

lemma sample_replaced:
  "ret_zero (do_replace (\<lambda>n xt. xt) good_env (sample_repl 0) 1156 sample_kstate)"
  by code_simp


text \<open>Registering the table a second time.\<close>

fun second_registration :: "(int \<times> (unit, unit, unit) kstate) exec option \<Rightarrow> bool" where
  "second_registration (Some (Ret (r, k))) =
     (r = 0 \<and> (case ipt_register_table (\<lambda>n xt. xt) good_env filter_table (sample_repl 0) k of
                 Some (Ret (r2, k2)) \<Rightarrow> r2 = 0 \<and> length (xt_tables (k_xt k2)) = length (xt_tables (k_xt k))
               | _ \<Rightarrow> False))"
| "second_registration _ = False"


definition sample_counters :: "xt_counters list" where
  "sample_counters = map (\<lambda>i. \<lparr>pcnt = of_nat i, bcnt = 100\<rparr>) [0..<7]"

definition counted_kstate :: "(unit, unit, unit) kstate" where
  "counted_kstate = \<lparr>k_xt = sample_af\<lparr>xt_tables := [filter_table\<lparr>tb_private := sample_info\<rparr>]\<rparr>, k_world = ()\<rparr>"

theorem do_add_counters_adds_witness:
  "\<exists>k' t' w'. do_add_counters good_env ''filter'' 7 sample_counters 148 counted_kstate = Some (Ret (0, k'))
    \<and> xt_find_table_lock (k_xt k') ''filter'' () = Some (t', w')
    \<and> get_counters (tb_private t') = Some (Ret (map2 sum_counters
        (entry_counters sample_blob [0, 148, 296, 444, 592, 740, 888]) sample_counters))"
proof -
  let ?ps = "[0, 148, 296, 444, 592, 740, 888] :: u32 list"
  let ?t = "filter_table\<lparr>tb_private := sample_info\<rparr>"
  have f: "xt_find_table_lock (k_xt counted_kstate) ''filter'' (k_world counted_kstate) = Some (?t, ())"
    by (simp add: counted_kstate_def xt_find_table_lock_def filter_table_def)
  have d: "distinct (map tb_name (xt_tables (k_xt counted_kstate)))" by (simp add: counted_kstate_def)
  have w: "walk (entries (tb_private ?t)) (size (tb_private ?t)) 0 ?ps"
    using sample_walk by (simp add: sample_info_def)
  have n: "number (tb_private ?t) = 7" "length sample_counters = length ?ps"
    by (simp_all add: sample_info_def sample_counters_def)
  have l: "148 = sizeof_xt_counters_info + 7 * 16" by simp
  have e: "copy_in good_env" "copy_in2 good_env" "alloc_info good_env" by (simp_all add: good_env_def)
  have p: "entries (tb_private ?t) = sample_blob" "k_world counted_kstate = ()"
    by (simp_all add: sample_info_def)
  have ds: "distinct ?ps" by simp
  show ?thesis
    using do_add_counters_adds [OF f d w ds n l e] unfolding p .
qed

end
