(* ===== verification/Ip_Tables_Sockopt.thy ===== *)
theory Ip_Tables_Sockopt
  imports Ip_Tables_Ctl
begin

section \<open>The socket option interface of ip\_tables\<close>

text \<open>
  \<open>do_ipt_set_ctl\<close> and \<open>do_ipt_get_ctl\<close> of \<^verbatim>\<open>net/ipv4/netfilter/ip_tables.c\<close>: the
  dispatch on the command number, the privilege test and the length tests. The buffer the
  caller passes is read as the structure the command expects (\<open>uarg\<close>); what is copied back is a
  value of \<open>ureply\<close>.
\<close>

record ('w, 'm, 't) uarg =
  ua_replace :: "('w, 'm, 't) ipt_replace"
  ua_name :: string
  ua_num_counters :: u32
  ua_counters :: "xt_counters list"
  ua_size :: u32
  ua_revision :: u8

record ipt_getinfo =
  gi_name :: string
  gi_valid_hooks :: u32
  gi_hook_entry :: "nat \<Rightarrow> u32"
  gi_underflow :: "nat \<Rightarrow> u32"
  gi_num_entries :: u32
  gi_size :: u32

datatype ('w, 'm, 't) ureply =
    NoReply
  | OldCounters "xt_counters list"
  | Info ipt_getinfo
  | Entries "('w, 'm, 't) blob"

abbreviation (input) IPT_SO_SET_REPLACE :: int where "IPT_SO_SET_REPLACE \<equiv> 64"
abbreviation (input) IPT_SO_SET_ADD_COUNTERS :: int where "IPT_SO_SET_ADD_COUNTERS \<equiv> 65"
abbreviation (input) IPT_SO_GET_INFO :: int where "IPT_SO_GET_INFO \<equiv> 64"
abbreviation (input) IPT_SO_GET_ENTRIES :: int where "IPT_SO_GET_ENTRIES \<equiv> 65"
abbreviation (input) IPT_SO_GET_REVISION_MATCH :: int where "IPT_SO_GET_REVISION_MATCH \<equiv> 66"
abbreviation (input) IPT_SO_GET_REVISION_TARGET :: int where "IPT_SO_GET_REVISION_TARGET \<equiv> 67"

abbreviation (input) sizeof_ipt_getinfo :: u32 where "sizeof_ipt_getinfo \<equiv> 84"
abbreviation (input) sizeof_ipt_get_entries :: u32 where "sizeof_ipt_get_entries \<equiv> 36"
abbreviation (input) sizeof_ipt_get_revision :: u32 where "sizeof_ipt_get_revision \<equiv> 30"
abbreviation (input) IPT_TABLE_MAXNAMELEN :: nat where "IPT_TABLE_MAXNAMELEN \<equiv> 32"

definition do_ipt_set_ctl :: "(string \<Rightarrow> ('w, 'm, 't) xt_af \<Rightarrow> ('w, 'm, 't) xt_af) \<Rightarrow> uenv \<Rightarrow> bool \<Rightarrow> int
    \<Rightarrow> ('w, 'm, 't) uarg \<Rightarrow> u32 \<Rightarrow> ('w, 'm, 't) kstate
    \<Rightarrow> (int \<times> ('w, 'm, 't) ureply \<times> ('w, 'm, 't) kstate) exec option" where
  "do_ipt_set_ctl modprobe env cap_net_admin cmd user len k =
     (if \<not> cap_net_admin then Some (Ret (- EPERM, NoReply, k))
      else if cmd = IPT_SO_SET_REPLACE then
        xbind (do_replace modprobe env (ua_replace user) len k)
          (\<lambda>(ret, cs, k'). Some (Ret (ret, case cs of None \<Rightarrow> NoReply | Some c \<Rightarrow> OldCounters c, k')))
      else if cmd = IPT_SO_SET_ADD_COUNTERS then
        xbind (do_add_counters env (ua_name user) (ua_num_counters user) (ua_counters user) len k)
          (\<lambda>(ret, k'). Some (Ret (ret, NoReply, k')))
      else Some (Ret (- EINVAL, NoReply, k)))"

text \<open>The three cases of \<open>do_ipt_get_ctl\<close>.\<close>

definition get_info :: "(string \<Rightarrow> ('w, 'm, 't) xt_af \<Rightarrow> ('w, 'm, 't) xt_af) \<Rightarrow> uenv
    \<Rightarrow> ('w, 'm, 't) uarg \<Rightarrow> u32 \<Rightarrow> ('w, 'm, 't) kstate
    \<Rightarrow> int \<times> ('w, 'm, 't) ureply \<times> ('w, 'm, 't) kstate" where
  "get_info modprobe env user len k =
     (if len \<noteq> sizeof_ipt_getinfo then (- EINVAL, NoReply, k)
      else if \<not> copy_in env then (- EFAULT, NoReply, k)
      else
        let name = take (IPT_TABLE_MAXNAMELEN - 1) (ua_name user) in
        (case request_table modprobe name (k_xt k, k_world k) of
           (None, xt) \<Rightarrow> (- ENOENT, NoReply, k\<lparr>k_xt := xt\<rparr>)
         | (Some (t, w), xt) \<Rightarrow>
             let private = tb_private t;
                 info = \<lparr>gi_name = name, gi_valid_hooks = tb_valid_hooks t,
                         gi_hook_entry = hook_entry private, gi_underflow = underflow private,
                         gi_num_entries = number private, gi_size = size private\<rparr>;
                 k' = \<lparr>k_xt = xt, k_world = tb_put t w\<rparr>
             in if \<not> copy_out env then (- EFAULT, NoReply, k') else (0, Info info, k')))"

definition get_revision :: "(string \<Rightarrow> ('w, 'm, 't) xt_af \<Rightarrow> ('w, 'm, 't) xt_af) \<Rightarrow> uenv \<Rightarrow> bool
    \<Rightarrow> ('w, 'm, 't) uarg \<Rightarrow> u32 \<Rightarrow> ('w, 'm, 't) kstate \<Rightarrow> int \<times> ('w, 'm, 't) ureply \<times> ('w, 'm, 't) kstate" where
  "get_revision modprobe env is_target user len k =
     (if len \<noteq> sizeof_ipt_get_revision then (- EINVAL, NoReply, k)
      else if \<not> copy_in env then (- EFAULT, NoReply, k)
      else
        (case xt_find_revision (k_xt k) (ua_name user) (ua_revision user) is_target of
           (True, ret) \<Rightarrow> (ret, NoReply, k)
         | (False, ret) \<Rightarrow>
             let xt = modprobe (''ipt_'' @ ua_name user) (k_xt k)
             in (snd (xt_find_revision xt (ua_name user) (ua_revision user) is_target), NoReply,
                 k\<lparr>k_xt := xt\<rparr>)))"

definition do_ipt_get_ctl :: "(string \<Rightarrow> ('w, 'm, 't) xt_af \<Rightarrow> ('w, 'm, 't) xt_af) \<Rightarrow> uenv \<Rightarrow> bool \<Rightarrow> int
    \<Rightarrow> ('w, 'm, 't) uarg \<Rightarrow> u32 \<Rightarrow> ('w, 'm, 't) kstate
    \<Rightarrow> (int \<times> ('w, 'm, 't) ureply \<times> ('w, 'm, 't) kstate) exec option" where
  "do_ipt_get_ctl modprobe env cap_net_admin cmd user len k =
     (if \<not> cap_net_admin then Some (Ret (- EPERM, NoReply, k))
      else if cmd = IPT_SO_GET_INFO then Some (Ret (get_info modprobe env user len k))
      else if cmd = IPT_SO_GET_ENTRIES then
        (if len < sizeof_ipt_get_entries then Some (Ret (- EINVAL, NoReply, k))
         else if \<not> copy_in env then Some (Ret (- EFAULT, NoReply, k))
         else if len \<noteq> sizeof_ipt_get_entries + ua_size user then Some (Ret (- EINVAL, NoReply, k))
         else
           xbind (get_entries env (ua_name user) (ua_size user) k)
             (\<lambda>(ret, user, k'). Some (Ret (ret, case user of None \<Rightarrow> NoReply | Some b \<Rightarrow> Entries b, k'))))
      else if cmd = IPT_SO_GET_REVISION_MATCH then Some (Ret (get_revision modprobe env False user len k))
      else if cmd = IPT_SO_GET_REVISION_TARGET then Some (Ret (get_revision modprobe env True user len k))
      else Some (Ret (- EINVAL, NoReply, k)))"

subsection \<open>Listing a table\<close>

text \<open>What \<open>iptables-save\<close> relies on: the rules come back entry by entry.\<close>

definition view_at :: "xt_counters list \<Rightarrow> u32 list \<Rightarrow> ('w, 'm, 't) blob \<Rightarrow> ('w, 'm, 't) blob \<Rightarrow> ('w, 'm, 't) blob" where
  "view_at cs ps b u = (\<lambda>p. case map_of (zip ps cs) p of None \<Rightarrow> u p | Some c \<Rightarrow> map_option (user_entry c) (b p))"

lemma view_at_Nil: "view_at cs [] b u = u"
  by (simp add: view_at_def)

lemma view_at_Cons:
  "p \<notin> set ps \<Longrightarrow> b p = Some e \<Longrightarrow> view_at cs ps b (u(p \<mapsto> user_entry c e)) = view_at (c # cs) (p # ps) b u"
proof (rule ext)
  fix q assume p: "p \<notin> set ps" "b p = Some e"
  have "map_of (zip ps cs) p = None" using p by (auto simp: map_of_eq_None_iff dest: set_zip_leftD)
  then show "view_at cs ps b (u(p \<mapsto> user_entry c e)) q = view_at (c # cs) (p # ps) b u q"
    using p by (simp add: view_at_def split: option.splits)
qed

lemma copy_walk:
  assumes "walk b sz i ps" "distinct ps" "length cs = n + length ps"
  shows "entry_iterate (copy_entry_to_user cs) sz i b (n, u)
    = Some (Ret (0, b, n + length ps, view_at (drop n cs) ps b u))"
  using assms
proof (induction arbitrary: n u rule: walk.induct)
  case (walk_done i)
  then show ?case by (subst entry_iterate.simps) (simp add: view_at_Nil)
next
  case (walk_step i e ps)
  have n: "n < length cs" using walk_step.prems by simp
  have c: "copy_entry_to_user cs i b (n, u) = Ret (0, b, n + 1, u(i \<mapsto> user_entry (cs ! n) e))"
    by (simp add: copy_entry_to_user_def walk_step.hyps n)
  have d: "drop n cs = cs ! n # drop (n + 1) cs" using n by (simp add: Cons_nth_drop_Suc)
  have "entry_iterate (copy_entry_to_user cs) sz (next_entry i e) b (n + 1, u(i \<mapsto> user_entry (cs ! n) e))
    = Some (Ret (0, b, n + 1 + length ps, view_at (drop (n + 1) cs) ps b (u(i \<mapsto> user_entry (cs ! n) e))))"
    by (rule walk_step.IH) (use walk_step.prems in auto)
  then show ?case
    using walk_step.prems(1) view_at_Cons [of i ps b e "drop (n + 1) cs" u "cs ! n"] walk_step.hyps
    by (subst entry_iterate.simps) (simp add: c d next_entry_def)
qed

lemma view_at_snapshot:
  "p \<in> set ps \<Longrightarrow> distinct ps \<Longrightarrow> b p = Some e
    \<Longrightarrow> view_at (entry_counters b ps) ps b u p = Some (user_entry (counters e) e)"
  by (simp add: view_at_def entry_counters_def map_of_zip_map)

lemma get_entries_user:
  assumes t: "xt_find_table_lock (k_xt k) name (k_world k) = Some (t, w)"
    and ps: "walk (entries (tb_private t)) (size (tb_private t)) 0 ps" "distinct ps"
    and env: "copy_out env" "alloc_counters env"
  shows "get_entries env name (size (tb_private t)) k
    = Some (Ret (0, Some (view_at (entry_counters (entries (tb_private t)) ps) ps (entries (tb_private t))
        (entries (tb_private t))), k\<lparr>k_world := tb_put t w\<rparr>))"
proof -
  have "length (entry_counters (entries (tb_private t)) ps) = 0 + length ps" by (simp add: entry_counters_def)
  from copy_walk [OF ps this, of "entries (tb_private t)"] show ?thesis
    by (simp add: get_entries_def t copy_entries_to_user_def get_counters_eq [OF ps(1)] env Let_def)
qed


definition sample_uarg :: "(unit, unit, unit) uarg" where
  "sample_uarg = \<lparr>ua_replace = sample_repl 0, ua_name = ''filter'', ua_num_counters = 7,
     ua_counters = [], ua_size = 0, ua_revision = 0\<rparr>"


end
