(* ===== verification/Xt_Tcpudp.thy ===== *)
theory Xt_Tcpudp
  imports Ip_Tables_Ctl
begin

section \<open>Transport header matches\<close>

text \<open>
  \<^verbatim>\<open>net/netfilter/xt_tcpudp.c\<close> (the \<open>tcp\<close> and \<open>udp\<close> matches) and
  \<^verbatim>\<open>net/ipv4/netfilter/ipt_multiport.c\<close>. A match function returns its result and whether it
  set \<open>*hotdrop\<close>. What these matches and the \<open>icmp\<close> match of ip\_tables have in common is the
  locale \<open>transport_match\<close>: they never match a later fragment, and a packet too short for its
  transport header is dropped by the whole table.
\<close>

subsection \<open>tcp and udp\<close>

record xt_tcp =
  tcp_spts0 :: u16
  tcp_spts1 :: u16
  tcp_dpts0 :: u16
  tcp_dpts1 :: u16
  tcp_option :: u8
  tcp_flg_mask :: u8
  tcp_flg_cmp :: u8
  tcp_invflags :: u8

record xt_udp =
  udp_spts0 :: u16
  udp_spts1 :: u16
  udp_dpts0 :: u16
  udp_dpts1 :: u16
  udp_invflags :: u8

abbreviation (input) XT_TCP_INV_SRCPT :: u8 where "XT_TCP_INV_SRCPT \<equiv> 0x01"
abbreviation (input) XT_TCP_INV_DSTPT :: u8 where "XT_TCP_INV_DSTPT \<equiv> 0x02"
abbreviation (input) XT_TCP_INV_FLAGS :: u8 where "XT_TCP_INV_FLAGS \<equiv> 0x04"
abbreviation (input) XT_TCP_INV_OPTION :: u8 where "XT_TCP_INV_OPTION \<equiv> 0x08"
abbreviation (input) XT_TCP_INV_MASK :: u8 where "XT_TCP_INV_MASK \<equiv> 0x0F"
abbreviation (input) XT_UDP_INV_SRCPT :: u8 where "XT_UDP_INV_SRCPT \<equiv> 0x01"
abbreviation (input) XT_UDP_INV_DSTPT :: u8 where "XT_UDP_INV_DSTPT \<equiv> 0x02"
abbreviation (input) XT_UDP_INV_MASK :: u8 where "XT_UDP_INV_MASK \<equiv> 0x03"

abbreviation (input) sizeof_tcphdr :: nat where "sizeof_tcphdr \<equiv> 20"
abbreviation (input) sizeof_udphdr :: nat where "sizeof_udphdr \<equiv> 8"
abbreviation (input) sizeof_icmphdr :: nat where "sizeof_icmphdr \<equiv> 8"

definition port_match :: "u16 \<Rightarrow> u16 \<Rightarrow> u16 \<Rightarrow> bool \<Rightarrow> bool" where
  "port_match mn mx port invert \<longleftrightarrow> (mn \<le> port \<and> port \<le> mx) \<noteq> invert"

text \<open>The option loop. When the last option byte is at least 2 the source reads one byte past
  the options, \<open>op[optlen]\<close>; \<open>over\<close> is whatever is there.\<close>

function find_option_loop :: "u8 \<Rightarrow> u8 list \<Rightarrow> u8 \<Rightarrow> nat \<Rightarrow> bool" where
  "find_option_loop option opts over i =
     (if i < length opts then
        if opts ! i = option then True
        else if opts ! i < 2 then find_option_loop option opts over (i + 1)
        else
          (let l = (if i + 1 < length opts then opts ! (i + 1) else over)
           in find_option_loop option opts over (i + (if l = 0 then 1 else unat l)))
      else False)"
  by pat_completeness auto
termination
  by (relation "measure (\<lambda>(option, opts, over, i). length opts - i)") 
    (auto simp: Let_def unat_gt_0 intro!: diff_less_mono2)

declare find_option_loop.simps [simp del]

definition tcp_find_option :: "u8 \<Rightarrow> sk_buff \<Rightarrow> nat \<Rightarrow> nat \<Rightarrow> bool \<Rightarrow> bool \<times> bool" where
  "tcp_find_option option skb protoff optlen invert =
     (if optlen = 0 then (invert, False)
      else
        (case skb_header_pointer skb (protoff + sizeof_tcphdr) optlen of
           None \<Rightarrow> (False, True)
         | Some opts \<Rightarrow>
             (find_option_loop option opts (rd8 (skb_data skb) (protoff + sizeof_tcphdr + optlen)) 0 \<noteq> invert,
              False)))"

definition tcp_match :: "xt_tcp \<Rightarrow> sk_buff \<Rightarrow> u16 \<Rightarrow> nat \<Rightarrow> bool \<times> bool" where
  "tcp_match tcpinfo skb offset protoff =
     (if offset \<noteq> 0 then (False, offset = 1)
      else
        (case skb_header_pointer skb protoff sizeof_tcphdr of
           None \<Rightarrow> (False, True)
         | Some th \<Rightarrow>
             if \<not> port_match (tcp_spts0 tcpinfo) (tcp_spts1 tcpinfo) (ntohs (tcph_source th))
                    (tcp_invflags tcpinfo AND XT_TCP_INV_SRCPT \<noteq> 0)
             then (False, False)
             else if \<not> port_match (tcp_dpts0 tcpinfo) (tcp_dpts1 tcpinfo) (ntohs (tcph_dest th))
                    (tcp_invflags tcpinfo AND XT_TCP_INV_DSTPT \<noteq> 0)
             then (False, False)
             else if \<not> ((rd8 th 13 AND tcp_flg_mask tcpinfo = tcp_flg_cmp tcpinfo)
                          \<noteq> (tcp_invflags tcpinfo AND XT_TCP_INV_FLAGS \<noteq> 0))
             then (False, False)
             else if tcp_option tcpinfo \<noteq> 0 then
               if tcph_doff th * 4 < sizeof_tcphdr then (False, True)
               else
                 (case tcp_find_option (tcp_option tcpinfo) skb protoff (tcph_doff th * 4 - sizeof_tcphdr)
                         (tcp_invflags tcpinfo AND XT_TCP_INV_OPTION \<noteq> 0) of
                    (r, hotdrop) \<Rightarrow> (r, hotdrop))
             else (True, False)))"

definition tcp_checkentry :: "ipt_ip \<Rightarrow> xt_tcp \<Rightarrow> u32 \<Rightarrow> bool" where
  "tcp_checkentry i tcpinfo matchsize \<longleftrightarrow>
     proto i = 6 \<and> invflags i AND IPT_INV_PROTO = 0 \<and> matchsize = of_nat (IPT_ALIGN 12)
     \<and> tcp_invflags tcpinfo AND NOT XT_TCP_INV_MASK = 0"

definition udp_match :: "xt_udp \<Rightarrow> sk_buff \<Rightarrow> u16 \<Rightarrow> nat \<Rightarrow> bool \<times> bool" where
  "udp_match udpinfo skb offset protoff =
     (if offset \<noteq> 0 then (False, False)
      else
        (case skb_header_pointer skb protoff sizeof_udphdr of
           None \<Rightarrow> (False, True)
         | Some uh \<Rightarrow>
             (port_match (udp_spts0 udpinfo) (udp_spts1 udpinfo) (ntohs (udph_source uh))
                (udp_invflags udpinfo AND XT_UDP_INV_SRCPT \<noteq> 0)
              \<and> port_match (udp_dpts0 udpinfo) (udp_dpts1 udpinfo) (ntohs (udph_dest uh))
                (udp_invflags udpinfo AND XT_UDP_INV_DSTPT \<noteq> 0), False)))"

definition udp_checkentry :: "ipt_ip \<Rightarrow> xt_udp \<Rightarrow> u32 \<Rightarrow> bool" where
  "udp_checkentry i udpinfo matchinfosize =
     (if proto i \<noteq> 17 \<or> invflags i AND IPT_INV_PROTO \<noteq> 0 then False
      else if matchinfosize \<noteq> of_nat (IPT_ALIGN 10) then False
      else if udp_invflags udpinfo AND NOT XT_UDP_INV_MASK \<noteq> 0 then False
      else True)"

subsection \<open>multiport\<close>

text \<open>\<open>flags\<close> is an \<open>enum ipt_multiport_flags\<close> in one byte. \<open>ports\<close> and \<open>pflags\<close> are the
  arrays of \<open>IPT_MULTI_PORTS\<close> (15) elements. Nothing bounds \<open>count\<close> by 15, so the loops can read
  past the arrays; an index outside them gives the value of \<open>junk\<close> there.\<close>

abbreviation (input) IPT_MULTIPORT_SOURCE :: u8 where "IPT_MULTIPORT_SOURCE \<equiv> 0"
abbreviation (input) IPT_MULTIPORT_DESTINATION :: u8 where "IPT_MULTIPORT_DESTINATION \<equiv> 1"
abbreviation (input) IPT_MULTIPORT_EITHER :: u8 where "IPT_MULTIPORT_EITHER \<equiv> 2"

record ipt_multiport =
  mp_flags :: u8
  mp_count :: u8
  mp_ports :: "u16 list"

record ipt_multiport_v1 =
  mp1_flags :: u8
  mp1_count :: u8
  mp1_ports :: "u16 list"
  mp1_pflags :: "u8 list"
  mp1_invert :: u8

definition nth_or :: "'a list \<Rightarrow> nat \<Rightarrow> (nat \<Rightarrow> 'a) \<Rightarrow> 'a" where
  "nth_or xs i junk = (if i < length xs then xs ! i else junk i)"

function ports_match :: "u16 list \<Rightarrow> (nat \<Rightarrow> u16) \<Rightarrow> u8 \<Rightarrow> nat \<Rightarrow> u16 \<Rightarrow> u16 \<Rightarrow> nat \<Rightarrow> bool" where
  "ports_match portlist junk flgs cnt sport dport i =
     (if i < cnt then
        if flgs \<noteq> IPT_MULTIPORT_DESTINATION \<and> nth_or portlist i junk = sport then True
        else if flgs \<noteq> IPT_MULTIPORT_SOURCE \<and> nth_or portlist i junk = dport then True
        else ports_match portlist junk flgs cnt sport dport (i + 1)
      else False)"
  by pat_completeness auto
termination
  by (relation "measure (\<lambda>(portlist, junk, flgs, cnt, sport, dport, i). cnt - i)") auto

function ports_match_v1 :: "ipt_multiport_v1 \<Rightarrow> (nat \<Rightarrow> u16) \<Rightarrow> (nat \<Rightarrow> u8) \<Rightarrow> u16 \<Rightarrow> u16 \<Rightarrow> nat \<Rightarrow> bool" where
  "ports_match_v1 minfo junk pjunk sport dport i =
     (if i < unat (mp1_count minfo) then
        (let s = nth_or (mp1_ports minfo) i junk in
         if nth_or (mp1_pflags minfo) i pjunk \<noteq> 0 then
           (let e = nth_or (mp1_ports minfo) (i + 1) junk in
            if mp1_flags minfo = IPT_MULTIPORT_SOURCE \<and> s \<le> sport \<and> sport \<le> e then 1 XOR mp1_invert minfo \<noteq> 0
            else if mp1_flags minfo = IPT_MULTIPORT_DESTINATION \<and> s \<le> dport \<and> dport \<le> e then 1 XOR mp1_invert minfo \<noteq> 0
            else if mp1_flags minfo = IPT_MULTIPORT_EITHER
                    \<and> ((s \<le> dport \<and> dport \<le> e) \<or> (s \<le> sport \<and> sport \<le> e)) then 1 XOR mp1_invert minfo \<noteq> 0
            else ports_match_v1 minfo junk pjunk sport dport (i + 2))
         else
           (if mp1_flags minfo = IPT_MULTIPORT_SOURCE \<and> sport = s then 1 XOR mp1_invert minfo \<noteq> 0
            else if mp1_flags minfo = IPT_MULTIPORT_DESTINATION \<and> dport = s then 1 XOR mp1_invert minfo \<noteq> 0
            else if mp1_flags minfo = IPT_MULTIPORT_EITHER \<and> (sport = s \<or> dport = s) then 1 XOR mp1_invert minfo \<noteq> 0
            else ports_match_v1 minfo junk pjunk sport dport (i + 1)))
      else mp1_invert minfo \<noteq> 0)"
  by pat_completeness auto
termination
  by (relation "measure (\<lambda>(minfo, junk, pjunk, sport, dport, i). unat (mp1_count minfo) - i)") auto

declare ports_match.simps [simp del] ports_match_v1.simps [simp del]

definition multiport_match :: "(nat \<Rightarrow> u16) \<Rightarrow> ipt_multiport \<Rightarrow> sk_buff \<Rightarrow> u16 \<Rightarrow> nat \<Rightarrow> bool \<times> bool" where
  "multiport_match junk multiinfo skb offset protoff =
     (if offset \<noteq> 0 then (False, False)
      else
        (case skb_header_pointer skb protoff 4 of
           None \<Rightarrow> (False, True)
         | Some pptr \<Rightarrow>
             (ports_match (mp_ports multiinfo) junk (mp_flags multiinfo) (unat (mp_count multiinfo))
                (ntohs (rd16 pptr 0)) (ntohs (rd16 pptr 2)) 0, False)))"

definition multiport_match_v1 :: "(nat \<Rightarrow> u16) \<Rightarrow> (nat \<Rightarrow> u8) \<Rightarrow> ipt_multiport_v1 \<Rightarrow> sk_buff \<Rightarrow> u16 \<Rightarrow> nat
    \<Rightarrow> bool \<times> bool" where
  "multiport_match_v1 junk pjunk multiinfo skb offset protoff =
     (if offset \<noteq> 0 then (False, False)
      else
        (case skb_header_pointer skb protoff 4 of
           None \<Rightarrow> (False, True)
         | Some pptr \<Rightarrow>
             (ports_match_v1 multiinfo junk pjunk (ntohs (rd16 pptr 0)) (ntohs (rd16 pptr 2)) 0, False)))"

definition multiport_checkentry :: "u32 \<Rightarrow> bool" where
  "multiport_checkentry matchsize \<longleftrightarrow> matchsize = of_nat (IPT_ALIGN 32)"

definition multiport_checkentry_v1 :: "u32 \<Rightarrow> bool" where
  "multiport_checkentry_v1 matchsize \<longleftrightarrow> matchsize = of_nat (IPT_ALIGN 48)"

subsection \<open>What the loops compute\<close>

text \<open>The kinds of the options in an option area, as the loop steps through them: options 0 and 1
  are one byte, a length byte of 0 counts as 1.\<close>

fun option_kinds :: "u8 list \<Rightarrow> u8 list" where
  "option_kinds [] = []"
| "option_kinds (k # bs) =
     k # (if k < 2 then option_kinds bs
          else (case bs of [] \<Rightarrow> [] | l # _ \<Rightarrow> option_kinds (drop (unat l - 1) bs)))"

lemma find_option_kinds:
  "find_option_loop option opts over i \<longleftrightarrow> option \<in> set (option_kinds (drop i opts))"
proof (induction option opts over i rule: find_option_loop.induct)
  case (1 option opts over i)
  show ?case
  proof (cases "i < length opts")
    case False
    then show ?thesis by (simp add: find_option_loop.simps [of option opts over i])
  next
    case True
    then have d: "drop i opts = opts ! i # drop (Suc i) opts" by (simp add: Cons_nth_drop_Suc)
    show ?thesis
    proof (cases "opts ! i = option \<or> opts ! i < 2")
      case True': True
      then show ?thesis
        using True "1.IH"(1) by (subst find_option_loop.simps) (auto simp: d)
    next
      case False
      show ?thesis
      proof (cases "Suc i < length opts")
        case next_byte: True
        let ?l = "opts ! (Suc i)" and ?s = "i + (if opts ! (Suc i) = 0 then 1 else unat (opts ! (Suc i)))"
        from next_byte have d1: "drop (Suc i) opts = ?l # drop (Suc (Suc i)) opts" by (simp add: Cons_nth_drop_Suc)
        have "drop (unat ?l - 1) (drop (Suc i) opts) = drop ?s opts"
          using unat_gt_0 [of ?l] by (auto simp: add.commute)
        then have k: "option_kinds (drop i opts) = opts ! i # option_kinds (drop ?s opts)"
          using False by (simp add: d d1 del: drop_drop)
        have "find_option_loop option opts over i = find_option_loop option opts over ?s"
          using True False next_byte by (subst find_option_loop.simps) (simp add: Let_def)
        then show ?thesis
          using True False next_byte "1.IH"(2) [OF True _ _ refl] by (simp add: k split: if_splits)
      next
        case end_byte: False
        have "find_option_loop option opts over (i + (if over = 0 then 1 else unat over)) = False"
          using True end_byte unat_gt_0 [of over]
          by (subst find_option_loop.simps) (auto simp: not_less)
        then show ?thesis
          using True False end_byte by (subst find_option_loop.simps) (auto simp: Let_def d)
      qed
    qed
  qed
qed

lemma ports_match_iff:
  "ports_match portlist junk flgs cnt sport dport i \<longleftrightarrow>
     (\<exists>j. i \<le> j \<and> j < cnt \<and> (flgs \<noteq> IPT_MULTIPORT_DESTINATION \<and> nth_or portlist j junk = sport
                          \<or> flgs \<noteq> IPT_MULTIPORT_SOURCE \<and> nth_or portlist j junk = dport))"
proof (induction portlist junk flgs cnt sport dport i rule: ports_match.induct)
  case (1 portlist junk flgs cnt sport dport i)
  have s: "(\<exists>j. i \<le> j \<and> j < cnt \<and> P j) \<longleftrightarrow> i < cnt \<and> (P i \<or> (\<exists>j. i + 1 \<le> j \<and> j < cnt \<and> P j))" for P
    by (auto simp: Suc_le_eq) (metis le_neq_implies_less less_imp_le_nat)+
  show ?case using 1 by (subst ports_match.simps, subst s) auto
qed

text \<open>The port ranges of a revision 1 list: a flagged port starts a range that the next one ends.\<close>

fun port_ranges :: "u16 list \<Rightarrow> u8 list \<Rightarrow> (u16 \<times> u16) list" where
  "port_ranges (s # e # ps) (f # g # fs) =
     (if f \<noteq> 0 then (s, e) # port_ranges ps fs else (s, s) # port_ranges (e # ps) (g # fs))"
| "port_ranges [s] [f] = [(s, s)]"
| "port_ranges _ _ = []"

fun paired :: "u8 list \<Rightarrow> bool" where
  "paired (f # g # fs) = (if f \<noteq> 0 then paired fs else paired (g # fs))"
| "paired [f] = (f = 0)"
| "paired [] = True"

definition in_range :: "u8 \<Rightarrow> u16 \<Rightarrow> u16 \<Rightarrow> u16 \<times> u16 \<Rightarrow> bool" where
  "in_range flgs sport dport r \<longleftrightarrow>
     (flgs = IPT_MULTIPORT_SOURCE \<or> flgs = IPT_MULTIPORT_EITHER) \<and> sport \<in> {fst r..snd r}
     \<or> (flgs = IPT_MULTIPORT_DESTINATION \<or> flgs = IPT_MULTIPORT_EITHER) \<and> dport \<in> {fst r..snd r}"

text \<open>One step of the loop, in terms of the range it looks at.\<close>

lemma ports_match_v1_step:
  assumes "i < unat (mp1_count minfo)"
  shows "ports_match_v1 minfo junk pjunk sport dport i =
    (let s = nth_or (mp1_ports minfo) i junk; f = nth_or (mp1_pflags minfo) i pjunk in
     if in_range (mp1_flags minfo) sport dport (s, if f \<noteq> 0 then nth_or (mp1_ports minfo) (i + 1) junk else s)
     then 1 XOR mp1_invert minfo \<noteq> 0
     else ports_match_v1 minfo junk pjunk sport dport (i + (if f \<noteq> 0 then 2 else 1)))"
  using assms by (subst ports_match_v1.simps) (auto simp: Let_def in_range_def)

lemma ports_match_v1_done:
  "\<not> i < unat (mp1_count minfo) \<Longrightarrow> ports_match_v1 minfo junk pjunk sport dport i = (mp1_invert minfo \<noteq> 0)"
  by (subst ports_match_v1.simps) simp

lemma ports_match_v1_ranges:
  assumes "length (mp1_ports minfo) = 15" "length (mp1_pflags minfo) = 15" "unat (mp1_count minfo) \<le> 15"
    and "P = take (unat (mp1_count minfo)) (mp1_ports minfo)" "F = take (unat (mp1_count minfo)) (mp1_pflags minfo)"
    and "paired (drop i F)"
  shows "ports_match_v1 minfo junk pjunk sport dport i
    = (if \<exists>r \<in> set (port_ranges (drop i P) (drop i F)). in_range (mp1_flags minfo) sport dport r
       then 1 XOR mp1_invert minfo \<noteq> 0 else mp1_invert minfo \<noteq> 0)"
  using assms(6)
proof (induction "length P - i" arbitrary: i rule: less_induct)
  case less
  have len: "length P = unat (mp1_count minfo)" "length F = length P" using assms by auto
  have nth: "nth_or (mp1_ports minfo) j junk = P ! j" "nth_or (mp1_pflags minfo) j pjunk = F ! j" if "j < length P" for j
    using that assms by (auto simp: nth_or_def)
  consider "\<not> i < length P" | "i < length P" "\<not> Suc i < length P" | "i < length P" "Suc i < length P" by blast
  then show ?case
  proof cases
    case 1
    then show ?thesis using len by (simp add: ports_match_v1_done)
  next
    case 2
    then have d: "drop i P = [P ! i]" "drop i F = [F ! i]" using len by (simp_all flip: Cons_nth_drop_Suc)
    then have "F ! i = 0" using less.prems by simp
    then show ?thesis
      using 2 len by (simp add: ports_match_v1_step nth Let_def d ports_match_v1_done)
  next
    case 3
    then have d: "drop i P = P ! i # P ! Suc i # drop (i + 2) P" "drop i F = F ! i # F ! Suc i # drop (i + 2) F"
      "drop (Suc i) P = P ! Suc i # drop (i + 2) P" "drop (Suc i) F = F ! Suc i # drop (i + 2) F"
      using len by (simp_all flip: Cons_nth_drop_Suc)
    let ?k = "if F ! i \<noteq> 0 then 2 else 1"
    have "paired (drop (i + ?k) F)" using less.prems d by (cases "F ! i = 0") auto
    then have "ports_match_v1 minfo junk pjunk sport dport (i + ?k)
      = (if \<exists>r \<in> set (port_ranges (drop (i + ?k) P) (drop (i + ?k) F)). in_range (mp1_flags minfo) sport dport r
         then 1 XOR mp1_invert minfo \<noteq> 0 else mp1_invert minfo \<noteq> 0)"
      using 3 by (intro less.hyps) auto
    then show ?thesis
      using 3 len by (simp add: ports_match_v1_step nth Let_def d split del: if_split cong: if_cong)
        (cases "F ! i = 0"; simp add: d)
  qed
qed

text \<open>C10: A revision 1 multiport match with a well-formed list (at most 15 ports, no range left open)
  compares the packet's ports with exactly the ranges of the list, inverted by \<open>invert\<close>, and
  reads nothing outside the two arrays.\<close>

theorem multiport_v1_matches:
  assumes "length (mp1_ports minfo) = 15" "length (mp1_pflags minfo) = 15" "unat (mp1_count minfo) \<le> 15"
    and "paired (take (unat (mp1_count minfo)) (mp1_pflags minfo))" "mp1_invert minfo \<le> 1"
    and "protoff + 4 \<le> skb_len skb"
  shows "multiport_match_v1 junk pjunk minfo skb 0 protoff =
    ((\<exists>r \<in> set (port_ranges (take (unat (mp1_count minfo)) (mp1_ports minfo))
                   (take (unat (mp1_count minfo)) (mp1_pflags minfo))).
        in_range (mp1_flags minfo) (ntohs (rd16 (skb_data skb) protoff)) (ntohs (rd16 (skb_data skb) (protoff + 2))) r)
      \<noteq> (mp1_invert minfo = 1), False)"
proof -
  obtain p where p: "skb_header_pointer skb protoff 4 = Some p"
    using assms(6) by (simp add: skb_header_pointer_def)
  have r: "rd16 p 0 = rd16 (skb_data skb) protoff" "rd16 p 2 = rd16 (skb_data skb) (protoff + 2)"
    using skb_header_pointer_rd16 [OF p, of 0] skb_header_pointer_rd16 [OF p, of 2] by simp_all
  have i: "mp1_invert minfo = 0 \<or> mp1_invert minfo = 1"
    using assms(5) by unat_arith
  show ?thesis
    unfolding multiport_match_v1_def p r option.case
      ports_match_v1_ranges [OF assms(1-3) refl refl, of 0, unfolded drop_0, OF assms(4)]
    using i by auto
qed

text \<open>The destination ports 80, 443, 995, 993, 25 and the range 5000 to 5001, and a packet to port 5001.\<close>

definition sample_multiport :: ipt_multiport_v1 where
  "sample_multiport = \<lparr>mp1_flags = IPT_MULTIPORT_DESTINATION, mp1_count = 7,
     mp1_ports = [80, 443, 995, 993, 25, 5000, 5001] @ replicate 8 0,
     mp1_pflags = [0, 0, 0, 0, 0, 1, 0] @ replicate 8 0, mp1_invert = 0\<rparr>"

definition port_skb :: "u8 \<Rightarrow> u8 \<Rightarrow> sk_buff" where
  "port_skb hi lo = plain_skb\<lparr>skb_data := [0x45, 0, 0, 40, 0, 0, 0, 0, 64, 6] @ replicate 10 0
     @ [0x30, 0x39, hi, lo] @ replicate 8 0 @ [0x50, 0x02] @ replicate 6 0\<rparr>"

theorem multiport_v1_matches_witness:
  "fst (multiport_match_v1 (\<lambda>i. 0) (\<lambda>i. 0) sample_multiport (port_skb 0x13 0x89) 0 20)"
proof -
  have "length (mp1_ports sample_multiport) = 15" "length (mp1_pflags sample_multiport) = 15"
    "unat (mp1_count sample_multiport) \<le> 15" "paired (take (unat (mp1_count sample_multiport)) (mp1_pflags sample_multiport))"
    "mp1_invert sample_multiport \<le> 1" "20 + 4 \<le> skb_len (port_skb 0x13 0x89)"
    by code_simp+
  note m = multiport_v1_matches [OF this]
  have "(\<exists>r \<in> set (port_ranges (take (unat (mp1_count sample_multiport)) (mp1_ports sample_multiport))
                   (take (unat (mp1_count sample_multiport)) (mp1_pflags sample_multiport))).
        in_range (mp1_flags sample_multiport) (ntohs (rd16 (skb_data (port_skb 0x13 0x89)) 20))
          (ntohs (rd16 (skb_data (port_skb 0x13 0x89)) (20 + 2))) r) \<and> mp1_invert sample_multiport \<noteq> 1"
    by code_simp
  then show ?thesis by (simp add: m)
qed



subsection \<open>The contract of transport matches\<close>

text \<open>How a match without state of its own is registered: \<open>sel\<close> picks its data out of the
  rule's match data.\<close>

definition plain_match :: "('m \<Rightarrow> 'i) \<Rightarrow> ('i \<Rightarrow> sk_buff \<Rightarrow> u16 \<Rightarrow> nat \<Rightarrow> bool \<times> bool) \<Rightarrow> 'w \<Rightarrow> sk_buff
    \<Rightarrow> netdev option \<Rightarrow> netdev option \<Rightarrow> 'm \<Rightarrow> u16 \<Rightarrow> nat \<Rightarrow> bool \<times> bool \<times> 'w" where
  "plain_match sel mt w skb inn out d offset protoff =
     (case mt (sel d) skb offset protoff of (r, hotdrop) \<Rightarrow> (r, hotdrop, w))"

text \<open>The registered matches; a module built into the kernel is always there, so that its reference
  count does not matter.\<close>

definition tcp_matchstruct :: "('m \<Rightarrow> xt_tcp) \<Rightarrow> ('w, 'm) xt_match" where
  "tcp_matchstruct sel = \<lparr>xm_name = ''tcp'', xm_revision = 0, xm_match = plain_match sel tcp_match,
     xm_checkentry = Some (\<lambda>name i d sz hooks w. (tcp_checkentry i (sel d) sz, d, w)),
     xm_destroy = None, xm_get = Some, xm_put = id\<rparr>"

definition udp_matchstruct :: "('m \<Rightarrow> xt_udp) \<Rightarrow> ('w, 'm) xt_match" where
  "udp_matchstruct sel = \<lparr>xm_name = ''udp'', xm_revision = 0, xm_match = plain_match sel udp_match,
     xm_checkentry = Some (\<lambda>name i d sz hooks w. (udp_checkentry i (sel d) sz, d, w)),
     xm_destroy = None, xm_get = Some, xm_put = id\<rparr>"

definition icmp_matchstruct :: "('m \<Rightarrow> ipt_icmp) \<Rightarrow> ('w, 'm) xt_match" where
  "icmp_matchstruct sel = \<lparr>xm_name = ''icmp'', xm_revision = 0,
     xm_match = plain_match sel (\<lambda>info skb. icmp_match skb info),
     xm_checkentry = Some (\<lambda>name i d sz hooks w. (icmp_checkentry i (sel d) sz, d, w)),
     xm_destroy = None, xm_get = Some, xm_put = id\<rparr>"

definition multiport_v1_matchstruct :: "(nat \<Rightarrow> u16) \<Rightarrow> (nat \<Rightarrow> u8) \<Rightarrow> ('m \<Rightarrow> ipt_multiport_v1)
    \<Rightarrow> ('w, 'm) xt_match" where
  "multiport_v1_matchstruct junk pjunk sel = \<lparr>xm_name = ''multiport'', xm_revision = 1,
     xm_match = plain_match sel (multiport_match_v1 junk pjunk),
     xm_checkentry = Some (\<lambda>name i d sz hooks w. (multiport_checkentry_v1 sz, d, w)),
     xm_destroy = None, xm_get = Some, xm_put = id\<rparr>"

locale transport_match =
  fixes mt :: "'i \<Rightarrow> sk_buff \<Rightarrow> u16 \<Rightarrow> nat \<Rightarrow> bool \<times> bool"
    and hdrlen :: nat
  assumes fragment: "offset \<noteq> 0 \<Longrightarrow> \<not> fst (mt info skb offset protoff)"
    and tinygram: "skb_len skb < protoff + hdrlen \<Longrightarrow> mt info skb 0 protoff = (False, True)"
begin

lemma pass_tiny:
  assumes "tr_blob s e = Some ent"
    and "ip_packet_match (skb_data (tr_skb s)) (devname inn) (devname out) (ip ent) False"
    and "matches ent = m # ms" "sizeof_ipt_entry < unat (target_offset ent)"
    and "match_u m = MKernel k" "xm_match k = plain_match sel mt"
    and "skb_len (tr_skb s) < iph_ihl (skb_data (tr_skb s)) * 4 + hdrlen"
  shows "do_table_pass hook inn out 0 e back s = PGo (next_entry e ent) back (s\<lparr>tr_hotdrop := True\<rparr>)"
  using assms tinygram [OF assms(7)]
  by (simp add: do_table_pass_def do_match_def plain_match_def Let_def)

lemma tiny_dropped:
  assumes "tr_blob s e = Some ent"
    and "ip_packet_match (skb_data (tr_skb s)) (devname inn) (devname out) (ip ent) False"
    and "matches ent = m # ms" "sizeof_ipt_entry < unat (target_offset ent)"
    and "match_u m = MKernel k" "xm_match k = plain_match sel mt"
    and "skb_len (tr_skb s) < iph_ihl (skb_data (tr_skb s)) * 4 + hdrlen"
  shows "do_table_loop hook inn out 0 e back s = Some (Ret (NF_DROP, s\<lparr>tr_hotdrop := True\<rparr>))"
  by (subst do_table_loop.simps) (simp add: pass_tiny [OF assms])

lemma fragment_no_match:
  assumes "offset \<noteq> 0" "match_u m = MKernel k" "xm_match k = plain_match sel mt"
  shows "fst (do_match skb inn out offset m s) = 1"
  using fragment [OF assms(1), of "sel (match_data m)" skb "iph_ihl (skb_data skb) * 4"] assms
  by (auto simp: do_match_def plain_match_def Let_def split: prod.splits)

end

interpretation tcp: transport_match tcp_match sizeof_tcphdr
  by unfold_locales (auto simp: tcp_match_def skb_header_pointer_def)

interpretation udp: transport_match udp_match sizeof_udphdr
  by unfold_locales (auto simp: udp_match_def skb_header_pointer_def)

interpretation icmp: transport_match "\<lambda>info skb. icmp_match skb info" sizeof_icmphdr
  by unfold_locales (auto simp: icmp_match_def skb_header_pointer_def)

interpretation multiport: transport_match "multiport_match junk" 4 for junk
  by unfold_locales (auto simp: multiport_match_def skb_header_pointer_def)

interpretation multiport_v1: transport_match "multiport_match_v1 junk pjunk" 4 for junk pjunk
  by unfold_locales (auto simp: multiport_match_v1_def skb_header_pointer_def)

text \<open>C12: Wherever the traversal of a table meets a rule whose IP part matches and whose first match is
  the tcp match, an unfragmented packet too short for a TCP header ends there with \<open>NF_DROP\<close>,
  whatever the rest of the table says, and the rule counts nothing.\<close>

theorem tcp_tinygram_dropped:
  assumes "tr_blob s e = Some ent"
    and "ip_packet_match (skb_data (tr_skb s)) (devname inn) (devname out) (ip ent) False"
    and "matches ent = m # ms" "sizeof_ipt_entry < unat (target_offset ent)"
    and "match_u m = MKernel k" "xm_match k = plain_match sel tcp_match"
    and "skb_len (tr_skb s) < iph_ihl (skb_data (tr_skb s)) * 4 + sizeof_tcphdr"
  shows "do_table_loop hook inn out 0 e back s = Some (Ret (NF_DROP, s\<lparr>tr_hotdrop := True\<rparr>))"
  by (rule tcp.tiny_dropped [OF assms])


definition tcp_rule :: "(unit, xt_tcp, unit) ipt_entry" where
  "tcp_rule = \<lparr>ip = ip_any, target_offset = 156, next_offset = 192, comefrom = 0,
     counters = \<lparr>pcnt = 0, bcnt = 0\<rparr>,
     matches = [\<lparr>match_size = 44, match_u = MKernel (tcp_matchstruct id),
       match_data = \<lparr>tcp_spts0 = 0, tcp_spts1 = 0xFFFF, tcp_dpts0 = 22, tcp_dpts1 = 22, tcp_option = 0,
         tcp_flg_mask = 0, tcp_flg_cmp = 0, tcp_invflags = 0\<rparr>\<rparr>],
     target = \<lparr>target_size = 36, target_u = TUser [] 0, target_data = (), verdict = - 2\<rparr>\<rparr>"

theorem tcp_tinygram_dropped_witness:
  "\<exists>s'. ipt_do_table plain_skb 1 None None
     \<lparr>size = 192, number = 1, initial_entries = 0, hook_entry = (\<lambda>h. 0), underflow = (\<lambda>h. 0),
      entries = [0 \<mapsto> tcp_rule]\<rparr> () = Some (Ret (NF_DROP, s'))"
proof -
  let ?s = "\<lparr>tr_blob = [0 \<mapsto> tcp_rule], tr_skb = plain_skb, tr_hotdrop = False, tr_world = ()\<rparr>"
  have i: "ip_packet_match (skb_data plain_skb) (devname None) (devname None) (ip tcp_rule) False"
    "sizeof_ipt_entry < unat (target_offset tcp_rule)" "ntohs (iph_frag_off (skb_data plain_skb)) AND 0x1FFF = 0"
    "skb_len plain_skb < iph_ihl (skb_data plain_skb) * 4 + sizeof_tcphdr"
    by code_simp+
  have "do_table_loop 1 None None 0 0 0 ?s = Some (Ret (NF_DROP, ?s\<lparr>tr_hotdrop := True\<rparr>))"
    by (rule tcp_tinygram_dropped [where ent = tcp_rule and sel = id and k = "tcp_matchstruct id"
        and m = "hd (matches tcp_rule)" and ms = "[]"])
      (use i in \<open>simp_all add: tcp_rule_def tcp_matchstruct_def\<close>)
  then show ?thesis by (simp add: ipt_do_table_def i(3))
qed

end
