(* ===== verification/Xt_Limit.thy ===== *)
theory Xt_Limit
  imports Ip_Tables_Check
begin

section \<open>The rate limit match\<close>

text \<open>
  \<^verbatim>\<open>net/netfilter/xt_limit.c\<close>: a token bucket in 32-bit arithmetic. \<open>jiffies\<close> is an input of
  the match; \<open>r->master = r\<close>, so the bucket is the rule's own data. The match holds
  \<open>limit_lock\<close>, so that calls come one after the other.
\<close>

record xt_rateinfo =
  avg :: u32
  burst :: u32
  rprev :: u32
  credit :: u32
  credit_cap :: u32
  cost :: u32

abbreviation (input) XT_LIMIT_SCALE :: u32 where "XT_LIMIT_SCALE \<equiv> 10000"

definition MAX_CPJ :: u32 where
  "MAX_CPJ = 0xFFFFFFFF div (HZ * 60 * 60 * 24)"

definition POW2_BELOW2 :: "u32 \<Rightarrow> u32" where "POW2_BELOW2 x = x OR drop_bit 1 x"
definition POW2_BELOW4 :: "u32 \<Rightarrow> u32" where "POW2_BELOW4 x = POW2_BELOW2 x OR POW2_BELOW2 (drop_bit 2 x)"
definition POW2_BELOW8 :: "u32 \<Rightarrow> u32" where "POW2_BELOW8 x = POW2_BELOW4 x OR POW2_BELOW4 (drop_bit 4 x)"
definition POW2_BELOW16 :: "u32 \<Rightarrow> u32" where "POW2_BELOW16 x = POW2_BELOW8 x OR POW2_BELOW8 (drop_bit 8 x)"
definition POW2_BELOW32 :: "u32 \<Rightarrow> u32" where
  "POW2_BELOW32 x = drop_bit 1 (POW2_BELOW16 x OR POW2_BELOW16 (drop_bit 16 x)) + 1"

definition CREDITS_PER_JIFFY :: u32 where
  "CREDITS_PER_JIFFY = POW2_BELOW32 MAX_CPJ"

definition limit_match :: "u32 \<Rightarrow> xt_rateinfo \<Rightarrow> bool \<times> xt_rateinfo" where
  "limit_match now r =
     (let r1 = r\<lparr>credit := credit r + (now - rprev r) * CREDITS_PER_JIFFY, rprev := now\<rparr>;
          r2 = (if credit_cap r1 < credit r1 then r1\<lparr>credit := credit_cap r1\<rparr> else r1)
      in if cost r2 \<le> credit r2 then (True, r2\<lparr>credit := credit r2 - cost r2\<rparr>) else (False, r2))"

definition user2credits :: "u32 \<Rightarrow> u32" where
  "user2credits user =
     (if 0xFFFFFFFF div (HZ * CREDITS_PER_JIFFY) < user
      then (user div XT_LIMIT_SCALE) * HZ * CREDITS_PER_JIFFY
      else (user * HZ * CREDITS_PER_JIFFY) div XT_LIMIT_SCALE)"

definition limit_checkentry :: "u32 \<Rightarrow> xt_rateinfo \<Rightarrow> u32 \<Rightarrow> bool \<times> xt_rateinfo" where
  "limit_checkentry jiffies r matchsize =
     (if matchsize \<noteq> of_nat (IPT_ALIGN 28) then (False, r)
      else if burst r = 0 \<or> user2credits (avg r * burst r) < user2credits (avg r) then (False, r)
      else (True, r\<lparr>rprev := jiffies, credit := user2credits (avg r * burst r),
                    credit_cap := user2credits (avg r * burst r), cost := user2credits (avg r)\<rparr>))"

text \<open>The packets of a rule, at the times of a list.\<close>

fun limit_run :: "nat list \<Rightarrow> xt_rateinfo \<Rightarrow> bool list \<times> xt_rateinfo" where
  "limit_run [] r = ([], r)"
| "limit_run (t # ts) r =
     (case limit_match (of_nat t) r of (ok, r') \<Rightarrow> (case limit_run ts r' of (oks, r'') \<Rightarrow> (ok # oks, r'')))"

subsection \<open>The bucket\<close>

lemma credits_per_jiffy: "CREDITS_PER_JIFFY = 256"
  by code_simp

lemma unat_refill_le:
  assumes "t0 \<le> t"
  shows "unat (c + (of_nat t - of_nat t0) * 256 :: u32) \<le> unat c + (t - t0) * 256"
proof -
  have "of_nat t - of_nat t0 = (of_nat (t - t0) :: u32)" using assms by (simp add: of_nat_diff)
  then have "unat (c + (of_nat t - of_nat t0) * 256 :: u32) = unat (of_nat (unat c + (t - t0) * 256) :: u32)"
    by simp
  also have "\<dots> \<le> unat c + (t - t0) * 256"
    unfolding unat_of_nat by (rule mod_less_eq_dividend)
  finally show ?thesis .
qed

lemma limit_match_frame:
  assumes "limit_match now r = (ok, r')"
  shows "rprev r' = now" "cost r' = cost r" "credit_cap r' = credit_cap r" "credit r' \<le> credit_cap r'"
proof -
  have sub: "a - b \<le> c" if "b \<le> a" "a \<le> c" for a b c :: u32
    using that by (meson order.trans word_sub_le)
  show "rprev r' = now" "cost r' = cost r" "credit_cap r' = credit_cap r" "credit r' \<le> credit_cap r'"
    using assms by (auto simp: limit_match_def Let_def not_less intro: sub split: if_splits)
qed

lemma limit_match_pay:
  assumes "limit_match (of_nat t) r = (ok, r')" "rprev r = of_nat t0" "t0 \<le> t"
  shows "of_bool ok * unat (cost r) + unat (credit r') \<le> unat (credit r) + (t - t0) * 256"
proof -
  let ?c = "credit r + (of_nat t - of_nat t0) * 256"
  let ?m = "if credit_cap r < ?c then credit_cap r else ?c"
  have le: "unat ?m \<le> unat (credit r) + (t - t0) * 256"
    using unat_refill_le [OF assms(3), of "credit r"] by (auto simp: word_less_nat_alt)
  have "of_bool ok * unat (cost r) + unat (credit r') = unat ?m"
    using assms(1,2)
    by (auto simp: limit_match_def Let_def credits_per_jiffy unat_sub split: if_splits)
      (auto simp: word_le_nat_alt)
  with le show ?thesis by simp
qed

text \<open>C13: The rate limit holds for every sequence of packets, also when the 32-bit credit or the
  jiffies counter wraps: the packets that pass cost no more than the credit at the start plus
  256 credits for every jiffy that has gone by.\<close>

theorem limit_rate:
  assumes "sorted (t0 # ts)" "rprev r = of_nat t0" "limit_run ts r = (oks, r')"
  shows "length (filter (\<lambda>ok. ok) oks) * unat (cost r) + unat (credit r') \<le> unat (credit r) + (last (t0 # ts) - t0) * 256"
  using assms
proof (induction ts arbitrary: t0 r oks)
  case Nil
  then show ?case by simp
next
  case (Cons t ts)
  obtain ok r1 where m: "limit_match (of_nat t) r = (ok, r1)" by fastforce
  obtain oks1 where oks: "limit_run ts r1 = (oks1, r')" "oks = ok # oks1"
    using Cons.prems(3) by (auto simp: m split: prod.splits)
  have t: "t0 \<le> t" "sorted (t # ts)" "t \<le> last (t # ts)" using Cons.prems(1) by (auto simp: last_in_set)
  have "length (filter (\<lambda>ok. ok) oks1) * unat (cost r) + unat (credit r') \<le> unat (credit r1) + (last (t # ts) - t) * 256"
    using Cons.IH [OF t(2) limit_match_frame(1) [OF m] oks(1)] limit_match_frame(2) [OF m] by simp
  moreover have "of_bool ok * unat (cost r) + unat (credit r1) \<le> unat (credit r) + (t - t0) * 256"
    by (rule limit_match_pay [OF m Cons.prems(2) t(1)])
  ultimately have "length (filter (\<lambda>ok. ok) oks) * unat (cost r) + unat (credit r')
      \<le> unat (credit r) + (t - t0) * 256 + (last (t # ts) - t) * 256"
    by (auto simp: oks(2) add_mult_distrib)
  also have "\<dots> = unat (credit r) + (last (t0 # t # ts) - t0) * 256"
    using t by (simp add: diff_mult_distrib)
  finally show ?case .
qed


text \<open>One packet every three seconds, in bursts of 5.\<close>

definition sample_rate :: xt_rateinfo where
  "sample_rate = snd (limit_checkentry 1000 \<lparr>avg = 30000, burst = 5, rprev = 0, credit = 0, credit_cap = 0, cost = 0\<rparr> 28)"

lemma sample_rate_values:
  "fst (limit_checkentry 1000 \<lparr>avg = 30000, burst = 5, rprev = 0, credit = 0, credit_cap = 0, cost = 0\<rparr> 28)"
  "rprev sample_rate = 1000" "cost sample_rate = 76800" "credit_cap sample_rate = 384000" "credit sample_rate = 384000"
  by code_simp+

theorem limit_rate_witness:
  "length (filter (\<lambda>ok. ok) (fst (limit_run [1000, 1001, 1002, 1003, 1004, 1005, 1300] sample_rate))) * 76800
     \<le> 384000 + 300 * 256"
proof -
  have r: "rprev sample_rate = of_nat 1000" "sorted [1000, 1000, 1001, 1002, 1003, 1004, 1005, 1300 :: nat]"
    by (simp_all add: sample_rate_values)
  obtain oks r' where l: "limit_run [1000, 1001, 1002, 1003, 1004, 1005, 1300] sample_rate = (oks, r')" by fastforce
  show ?thesis using limit_rate [OF r(2,1) l] by (simp add: l sample_rate_values del: limit_run.simps)
qed



end
