(* ===== verification/Ct_Tuple.thy ===== *)
theory Ct_Tuple
  imports Skbuff
begin

section \<open>Connection tuples\<close>

text \<open>
  \<^verbatim>\<open>include/linux/netfilter_ipv4/ip_conntrack_tuple.h\<close>, the hash of
  \<^verbatim>\<open>include/linux/jhash.h\<close>, the tuple half of the transport protocols
  (\<^verbatim>\<open>ip_conntrack_proto_tcp.c\<close>, \<^verbatim>\<open>_udp.c\<close>, \<^verbatim>\<open>_icmp.c\<close>, \<^verbatim>\<open>_generic.c\<close>) and
  \<open>ip_ct_get_tuple\<close>, \<open>ip_ct_invert_tuple\<close> of \<^verbatim>\<open>ip_conntrack_core.c\<close>.

  The two unions \<open>u\<close> are 16 bits each; the ICMP type and code are the low and the high byte of
  the destination's. The locale \<open>l4_tuple\<close> is what connection tracking needs of a protocol: that
  inverting a tuple twice gives it back.
\<close>

record ip_conntrack_tuple =
  src_ip :: u32
  src_u :: u16
  dst_ip :: u32
  dst_u :: u16
  protonum :: u8
  dir :: u8

abbreviation (input) IP_CT_DIR_ORIGINAL :: u8 where "IP_CT_DIR_ORIGINAL \<equiv> 0"
abbreviation (input) IP_CT_DIR_REPLY :: u8 where "IP_CT_DIR_REPLY \<equiv> 1"

definition ip_ct_tuple_src_equal :: "ip_conntrack_tuple \<Rightarrow> ip_conntrack_tuple \<Rightarrow> bool" where
  "ip_ct_tuple_src_equal t1 t2 \<longleftrightarrow> src_ip t1 = src_ip t2 \<and> src_u t1 = src_u t2"

definition ip_ct_tuple_dst_equal :: "ip_conntrack_tuple \<Rightarrow> ip_conntrack_tuple \<Rightarrow> bool" where
  "ip_ct_tuple_dst_equal t1 t2 \<longleftrightarrow> dst_ip t1 = dst_ip t2 \<and> dst_u t1 = dst_u t2 \<and> protonum t1 = protonum t2"

definition ip_ct_tuple_equal :: "ip_conntrack_tuple \<Rightarrow> ip_conntrack_tuple \<Rightarrow> bool" where
  "ip_ct_tuple_equal t1 t2 \<longleftrightarrow> ip_ct_tuple_src_equal t1 t2 \<and> ip_ct_tuple_dst_equal t1 t2"

definition ip_ct_tuple_mask_cmp :: "ip_conntrack_tuple \<Rightarrow> ip_conntrack_tuple \<Rightarrow> ip_conntrack_tuple \<Rightarrow> bool" where
  "ip_ct_tuple_mask_cmp t tuple msk \<longleftrightarrow>
     \<not> ((src_ip t XOR src_ip tuple) AND src_ip msk \<noteq> 0
        \<or> (dst_ip t XOR dst_ip tuple) AND dst_ip msk \<noteq> 0
        \<or> (src_u t XOR src_u tuple) AND src_u msk \<noteq> 0
        \<or> (dst_u t XOR dst_u tuple) AND dst_u msk \<noteq> 0
        \<or> (protonum t XOR protonum tuple) AND protonum msk \<noteq> 0)"

subsection \<open>The hash\<close>

text \<open>The three rows of \<open>__jhash_mix\<close> differ only in their shifts.\<close>

definition jhash_row :: "nat \<Rightarrow> nat \<Rightarrow> nat \<Rightarrow> u32 \<times> u32 \<times> u32 \<Rightarrow> u32 \<times> u32 \<times> u32" where
  "jhash_row i j k s =
     (case s of (a, b, c) \<Rightarrow>
        let a1 = (a - b - c) XOR drop_bit i c;
            b1 = (b - c - a1) XOR push_bit j a1;
            c1 = (c - a1 - b1) XOR drop_bit k b1
        in (a1, b1, c1))"

definition jhash_mix :: "u32 \<times> u32 \<times> u32 \<Rightarrow> u32 \<times> u32 \<times> u32" where
  "jhash_mix s = jhash_row 3 10 15 (jhash_row 12 16 5 (jhash_row 13 8 13 s))"

abbreviation (input) JHASH_GOLDEN_RATIO :: u32 where "JHASH_GOLDEN_RATIO \<equiv> 0x9e3779b9"

definition jhash_3words :: "u32 \<Rightarrow> u32 \<Rightarrow> u32 \<Rightarrow> u32 \<Rightarrow> u32" where
  "jhash_3words a b c initval =
     snd (snd (jhash_mix (a + JHASH_GOLDEN_RATIO, b + JHASH_GOLDEN_RATIO, c + initval)))"

definition hash_conntrack' :: "ip_conntrack_tuple \<Rightarrow> u32 \<Rightarrow> u32 \<Rightarrow> u32" where
  "hash_conntrack' tuple sz rnd =
     jhash_3words (src_ip tuple) (dst_ip tuple XOR ucast (protonum tuple))
       (ucast (src_u tuple) OR push_bit 16 (ucast (dst_u tuple))) rnd mod sz"

subsection \<open>The protocols' half\<close>

text \<open>\<open>pkt_to_tuple\<close> and \<open>invert_tuple\<close> fill in the protocol part of the tuple they are given;
  \<open>None\<close> is their return value 0.\<close>

record ct_l4 =
  l4_pkt_to_tuple :: "sk_buff \<Rightarrow> nat \<Rightarrow> ip_conntrack_tuple \<Rightarrow> ip_conntrack_tuple option"
  l4_invert_tuple :: "ip_conntrack_tuple \<Rightarrow> ip_conntrack_tuple \<Rightarrow> ip_conntrack_tuple option"

definition tcp_pkt_to_tuple :: "sk_buff \<Rightarrow> nat \<Rightarrow> ip_conntrack_tuple \<Rightarrow> ip_conntrack_tuple option" where
  "tcp_pkt_to_tuple skb dataoff tuple =
     (case skb_header_pointer skb dataoff 8 of
        None \<Rightarrow> None
      | Some hp \<Rightarrow> Some (tuple\<lparr>src_u := tcph_source hp, dst_u := tcph_dest hp\<rparr>))"

definition tcp_invert_tuple :: "ip_conntrack_tuple \<Rightarrow> ip_conntrack_tuple \<Rightarrow> ip_conntrack_tuple option" where
  "tcp_invert_tuple tuple orig = Some (tuple\<lparr>src_u := dst_u orig, dst_u := src_u orig\<rparr>)"

definition udp_pkt_to_tuple :: "sk_buff \<Rightarrow> nat \<Rightarrow> ip_conntrack_tuple \<Rightarrow> ip_conntrack_tuple option" where
  "udp_pkt_to_tuple skb dataoff tuple =
     (case skb_header_pointer skb dataoff 8 of
        None \<Rightarrow> None
      | Some hp \<Rightarrow> Some (tuple\<lparr>src_u := udph_source hp, dst_u := udph_dest hp\<rparr>))"

definition udp_invert_tuple :: "ip_conntrack_tuple \<Rightarrow> ip_conntrack_tuple \<Rightarrow> ip_conntrack_tuple option" where
  "udp_invert_tuple tuple orig = Some (tuple\<lparr>src_u := dst_u orig, dst_u := src_u orig\<rparr>)"

definition generic_pkt_to_tuple :: "sk_buff \<Rightarrow> nat \<Rightarrow> ip_conntrack_tuple \<Rightarrow> ip_conntrack_tuple option" where
  "generic_pkt_to_tuple skb dataoff tuple = Some (tuple\<lparr>src_u := 0, dst_u := 0\<rparr>)"

definition generic_invert_tuple :: "ip_conntrack_tuple \<Rightarrow> ip_conntrack_tuple \<Rightarrow> ip_conntrack_tuple option" where
  "generic_invert_tuple tuple orig = Some (tuple\<lparr>src_u := 0, dst_u := 0\<rparr>)"

definition dst_icmp_type :: "ip_conntrack_tuple \<Rightarrow> u8" where
  "dst_icmp_type t = ucast (dst_u t)"

definition dst_icmp_code :: "ip_conntrack_tuple \<Rightarrow> u8" where
  "dst_icmp_code t = ucast (drop_bit 8 (dst_u t))"

definition icmp_u :: "u8 \<Rightarrow> u8 \<Rightarrow> u16" where
  "icmp_u typ code = ucast typ OR push_bit 8 (ucast code)"

definition icmp_pkt_to_tuple :: "sk_buff \<Rightarrow> nat \<Rightarrow> ip_conntrack_tuple \<Rightarrow> ip_conntrack_tuple option" where
  "icmp_pkt_to_tuple skb dataoff tuple =
     (case skb_header_pointer skb dataoff 8 of
        None \<Rightarrow> None
      | Some hp \<Rightarrow> Some (tuple\<lparr>src_u := icmph_id hp, dst_u := icmp_u (icmph_type hp) (icmph_code hp)\<rparr>))"

text \<open>Echo 8 and echo reply 0, timestamp 13 and 14, information 15 and 16, address mask 17 and 18;
  add 1, spaces filled with 0.\<close>

definition invmap :: "u8 list" where
  "invmap = [8 + 1, 0, 0, 0, 0, 0, 0, 0, 0 + 1, 0, 0, 0, 0, 14 + 1, 13 + 1, 16 + 1, 15 + 1, 18 + 1, 17 + 1]"

definition icmp_invert_tuple :: "ip_conntrack_tuple \<Rightarrow> ip_conntrack_tuple \<Rightarrow> ip_conntrack_tuple option" where
  "icmp_invert_tuple tuple orig =
     (if length invmap \<le> unat (dst_icmp_type orig) \<or> invmap ! unat (dst_icmp_type orig) = 0 then None
      else Some (tuple\<lparr>src_u := src_u orig,
             dst_u := icmp_u (invmap ! unat (dst_icmp_type orig) - 1) (dst_icmp_code orig)\<rparr>))"

definition tcp_l4 :: ct_l4 where
  "tcp_l4 = \<lparr>l4_pkt_to_tuple = tcp_pkt_to_tuple, l4_invert_tuple = tcp_invert_tuple\<rparr>"

definition udp_l4 :: ct_l4 where
  "udp_l4 = \<lparr>l4_pkt_to_tuple = udp_pkt_to_tuple, l4_invert_tuple = udp_invert_tuple\<rparr>"

definition icmp_l4 :: ct_l4 where
  "icmp_l4 = \<lparr>l4_pkt_to_tuple = icmp_pkt_to_tuple, l4_invert_tuple = icmp_invert_tuple\<rparr>"

definition generic_l4 :: ct_l4 where
  "generic_l4 = \<lparr>l4_pkt_to_tuple = generic_pkt_to_tuple, l4_invert_tuple = generic_invert_tuple\<rparr>"

text \<open>\<open>ip_ct_protos\<close> as \<open>ip_conntrack_init\<close> fills it: the generic protocol wherever no other is
  registered.\<close>

definition l4_find :: "u8 \<Rightarrow> ct_l4" where
  "l4_find protocol =
     (if protocol = IPPROTO_TCP then tcp_l4
      else if protocol = IPPROTO_UDP then udp_l4
      else if protocol = IPPROTO_ICMP then icmp_l4
      else generic_l4)"

subsection \<open>Tuples of packets\<close>

abbreviation (input) IP_OFFSET :: u16 where "IP_OFFSET \<equiv> 0x1FFF"

definition ip_ct_get_tuple :: "u8 list \<Rightarrow> sk_buff \<Rightarrow> nat \<Rightarrow> ct_l4 \<Rightarrow> ip_conntrack_tuple option" where
  "ip_ct_get_tuple iph skb dataoff protocol =
     (if iph_frag_off iph AND htons IP_OFFSET \<noteq> 0 then None
      else l4_pkt_to_tuple protocol skb dataoff
             \<lparr>src_ip = iph_saddr iph, src_u = 0, dst_ip = iph_daddr iph, dst_u = 0,
              protonum = iph_protocol iph, dir = IP_CT_DIR_ORIGINAL\<rparr>)"

definition ip_ct_invert_tuple :: "ip_conntrack_tuple \<Rightarrow> ct_l4 \<Rightarrow> ip_conntrack_tuple option" where
  "ip_ct_invert_tuple orig protocol =
     l4_invert_tuple protocol
       \<lparr>src_ip = dst_ip orig, src_u = 0, dst_ip = src_ip orig, dst_u = 0, protonum = protonum orig,
        dir = (if dir orig = 0 then 1 else 0)\<rparr> orig"

definition invert_tuplepr :: "ip_conntrack_tuple \<Rightarrow> ip_conntrack_tuple option" where
  "invert_tuplepr orig = ip_ct_invert_tuple orig (l4_find (protonum orig))"

text \<open>An ICMP tuple may be of a type that has no answer.\<close>

definition invertible :: "ip_conntrack_tuple \<Rightarrow> bool" where
  "invertible t \<longleftrightarrow> invert_tuplepr t \<noteq> None"

subsection \<open>Inversion\<close>

text \<open>The part of a tuple that the protocols leave alone.\<close>

definition same_ends :: "ip_conntrack_tuple \<Rightarrow> ip_conntrack_tuple \<Rightarrow> bool" where
  "same_ends t t' \<longleftrightarrow> src_ip t' = src_ip t \<and> dst_ip t' = dst_ip t \<and> protonum t' = protonum t \<and> dir t' = dir t"

locale l4_tuple =
  fixes l4 :: ct_l4 and clean :: "ip_conntrack_tuple \<Rightarrow> bool"
  assumes pkt_frame: "l4_pkt_to_tuple l4 skb off t = Some t' \<Longrightarrow> same_ends t t' \<and> clean t'"
    and invert_frame: "l4_invert_tuple l4 i orig = Some t \<Longrightarrow> same_ends i t"
    and invert_invert: "clean orig \<Longrightarrow> l4_invert_tuple l4 i orig = Some t
      \<Longrightarrow> clean t \<and> l4_invert_tuple l4 j t = Some (j\<lparr>src_u := src_u orig, dst_u := dst_u orig\<rparr>)"
begin

lemma get_tuple_fields:
  assumes "ip_ct_get_tuple iph skb off l4 = Some t"
  shows "src_ip t = iph_saddr iph" "dst_ip t = iph_daddr iph" "protonum t = iph_protocol iph" "dir t = 0" "clean t"
  using assms pkt_frame by (auto simp: ip_ct_get_tuple_def same_ends_def split: if_splits)

lemma invert_fields:
  assumes "ip_ct_invert_tuple t l4 = Some t'"
  shows "src_ip t' = dst_ip t" "dst_ip t' = src_ip t" "protonum t' = protonum t" "dir t' = (if dir t = 0 then 1 else 0)"
  using invert_frame [OF assms [unfolded ip_ct_invert_tuple_def]] by (simp_all add: same_ends_def)

lemma invert_involution:
  assumes "clean t" "dir t \<le> 1" "ip_ct_invert_tuple t l4 = Some t'"
  shows "ip_ct_invert_tuple t' l4 = Some t" "clean t'"
proof -
  note i = invert_invert [OF assms(1) assms(3) [unfolded ip_ct_invert_tuple_def]]
  from i show "clean t'" by blast
  have d: "dir t = 0 \<or> dir t = 1" using assms(2) by unat_arith
  show "ip_ct_invert_tuple t' l4 = Some t"
    unfolding ip_ct_invert_tuple_def using i d by (auto simp: invert_fields [OF assms(3)])
qed

end

lemma icmp_u_parts: "ucast (icmp_u typ code) = typ" "ucast (drop_bit 8 (icmp_u typ code)) = code"
  by (rule bit_word_eqI, auto simp: icmp_u_def bit_simps dest: bit_imp_le_length)+

lemma icmp_u_split: "icmp_u (dst_icmp_type t) (dst_icmp_code t) = dst_u t"
  by (rule bit_word_eqI) (auto simp: icmp_u_def dst_icmp_type_def dst_icmp_code_def bit_simps)

lemma invmap_invmap:
  assumes "n < length invmap" "invmap ! n \<noteq> 0"
  shows "unat (invmap ! n - 1) < length invmap" "invmap ! unat (invmap ! n - 1) = of_nat n + 1"
proof -
  have "\<forall>n \<in> set [0..<length invmap]. invmap ! n \<noteq> 0 \<longrightarrow> unat (invmap ! n - 1) < length invmap
      \<and> invmap ! unat (invmap ! n - 1) = of_nat n + 1"
    by code_simp
  with assms show "unat (invmap ! n - 1) < length invmap" "invmap ! unat (invmap ! n - 1) = of_nat n + 1" by auto
qed

lemma length_invmap: "length invmap = 19"
  by (simp add: invmap_def)

interpretation tcp: l4_tuple tcp_l4 "\<lambda>t. True"
  by unfold_locales (auto simp: same_ends_def tcp_l4_def tcp_pkt_to_tuple_def tcp_invert_tuple_def split: option.splits)

interpretation udp: l4_tuple udp_l4 "\<lambda>t. True"
  by unfold_locales (auto simp: same_ends_def udp_l4_def udp_pkt_to_tuple_def udp_invert_tuple_def split: option.splits)

interpretation generic: l4_tuple generic_l4 "\<lambda>t. src_u t = 0 \<and> dst_u t = 0"
  by unfold_locales (auto simp: same_ends_def generic_l4_def generic_pkt_to_tuple_def generic_invert_tuple_def split: option.splits)

interpretation icmp: l4_tuple icmp_l4 "\<lambda>t. True"
proof unfold_locales
  fix orig i t j :: ip_conntrack_tuple
  let ?n = "unat (dst_icmp_type orig)"
  assume "l4_invert_tuple icmp_l4 i orig = Some t"
  then have n: "?n < length invmap" "invmap ! ?n \<noteq> 0"
    and t: "t = i\<lparr>src_u := src_u orig, dst_u := icmp_u (invmap ! ?n - 1) (dst_icmp_code orig)\<rparr>"
    by (auto simp: icmp_l4_def icmp_invert_tuple_def split: if_splits)
  have p: "dst_icmp_type t = invmap ! ?n - 1" "dst_icmp_code t = dst_icmp_code orig" "src_u t = src_u orig"
    by (simp_all add: t dst_icmp_type_def dst_icmp_code_def icmp_u_parts)
  have b: "unat (invmap ! ?n - 1) < length invmap" "invmap ! unat (invmap ! ?n - 1) = dst_icmp_type orig + 1"
    using invmap_invmap [OF n] by simp_all
  have "unat (dst_icmp_type orig + 1) = ?n + 1"
    using n(1) by (simp add: length_invmap unat_word_ariths)
  then have "dst_icmp_type orig + 1 \<noteq> 0" by auto
  then show "True \<and> l4_invert_tuple icmp_l4 j t = Some (j\<lparr>src_u := src_u orig, dst_u := dst_u orig\<rparr>)"
    using b by (simp add: icmp_l4_def icmp_invert_tuple_def p icmp_u_split)
qed (auto simp: same_ends_def icmp_l4_def icmp_pkt_to_tuple_def icmp_invert_tuple_def split: option.splits if_splits)

lemma l4_find_simps:
  "l4_find 6 = tcp_l4" "l4_find 17 = udp_l4" "l4_find 1 = icmp_l4"
  "p \<noteq> 6 \<Longrightarrow> p \<noteq> 17 \<Longrightarrow> p \<noteq> 1 \<Longrightarrow> l4_find p = generic_l4"
  by (simp_all add: l4_find_def)

lemmas l4_defs = tcp_l4_def udp_l4_def icmp_l4_def generic_l4_def

lemmas tuple_equal_defs = ip_ct_tuple_equal_def ip_ct_tuple_src_equal_def ip_ct_tuple_dst_equal_def

lemma tuple_equal_refl [simp]: "ip_ct_tuple_equal t t"
  by (simp add: tuple_equal_defs)

lemma tuple_equal_sym: "ip_ct_tuple_equal t u \<longleftrightarrow> ip_ct_tuple_equal u t"
  by (auto simp: tuple_equal_defs)

lemma tuple_equal_trans: "ip_ct_tuple_equal t u \<Longrightarrow> ip_ct_tuple_equal u v \<Longrightarrow> ip_ct_tuple_equal t v"
  by (simp add: tuple_equal_defs)

lemma tuple_equal_hash: "ip_ct_tuple_equal t u \<Longrightarrow> hash_conntrack' t sz rnd = hash_conntrack' u sz rnd"
  by (simp add: tuple_equal_defs hash_conntrack'_def)

lemma tuple_equal_dir: "ip_ct_tuple_equal t u \<Longrightarrow> dir t = dir u \<Longrightarrow> t = u"
  by (simp add: tuple_equal_defs)

lemma get_tuple_find:
  assumes "ip_ct_get_tuple iph skb off (l4_find p) = Some t"
  shows "src_ip t = iph_saddr iph" "dst_ip t = iph_daddr iph" "protonum t = iph_protocol iph" "dir t = 0"
  using assms tcp.get_tuple_fields udp.get_tuple_fields icmp.get_tuple_fields generic.get_tuple_fields
  by (auto simp: l4_find_def split: if_splits)

lemma invert_find_fields:
  assumes "ip_ct_invert_tuple t (l4_find p) = Some t'"
  shows "src_ip t' = dst_ip t" "dst_ip t' = src_ip t" "protonum t' = protonum t" "dir t' = (if dir t = 0 then 1 else 0)"
  using assms tcp.invert_fields udp.invert_fields icmp.invert_fields generic.invert_fields
  by (auto simp: l4_find_def split: if_splits)

lemma invert_invertible:
  assumes "invert_tuplepr t = Some u"
  shows "invertible u" "protonum u = protonum t"
proof -
  note i = assms [unfolded invert_tuplepr_def]
  show p: "protonum u = protonum t" using invert_find_fields(3) [OF i] .
  have "ip_ct_invert_tuple u (l4_find (protonum t)) \<noteq> None"
    using i icmp.invert_invert by (auto simp: ip_ct_invert_tuple_def l4_find_def tcp_l4_def udp_l4_def generic_l4_def tcp_invert_tuple_def
      udp_invert_tuple_def generic_invert_tuple_def split: if_splits)
  then show "invertible u" by (simp add: invertible_def invert_tuplepr_def p)
qed

text \<open>C16: Whatever the protocol, inverting the tuple of a packet and inverting the result again gives the tuple
  of the packet back, with its direction.\<close>

theorem tuple_inverts:
  assumes "ip_ct_get_tuple iph skb off (l4_find (iph_protocol iph)) = Some t" "invert_tuplepr t = Some t'"
  shows "dir t' = IP_CT_DIR_REPLY \<and> invert_tuplepr t' = Some t"
proof -
  let ?p = "iph_protocol iph"
  have t: "protonum t = ?p" "dir t = 0" using get_tuple_find [OF assms(1)] by simp_all
  have i: "ip_ct_invert_tuple t (l4_find ?p) = Some t'" using assms(2) by (simp add: invert_tuplepr_def t)
  have "ip_ct_invert_tuple t' (l4_find ?p) = Some t"
    using assms(1) i t(2) tcp.invert_involution(1) udp.invert_involution(1) icmp.invert_involution(1)
      generic.invert_involution(1) [of t t'] generic.get_tuple_fields(5)
    by (auto simp: l4_find_def split: if_splits)
  then show ?thesis using invert_find_fields [OF i] t by (simp add: invert_tuplepr_def)
qed

text \<open>What the transport header of a reply looks like: the ports change places, an ICMP query has the same
  identifier and code and the type of the reply.\<close>

definition is_reply :: "u8 \<Rightarrow> u8 list \<Rightarrow> u8 list \<Rightarrow> bool" where
  "is_reply p h h' =
     (if p = IPPROTO_TCP \<or> p = IPPROTO_UDP then rd16 h' 0 = rd16 h 2 \<and> rd16 h' 2 = rd16 h 0
      else if p = IPPROTO_ICMP then icmph_id h' = icmph_id h \<and> icmph_code h' = icmph_code h
        \<and> unat (icmph_type h) < length invmap \<and> icmph_type h' + 1 = invmap ! unat (icmph_type h)
        \<and> invmap ! unat (icmph_type h) \<noteq> 0
      else True)"


subsection \<open>Examples\<close>

definition pkt_skb :: "u8 list \<Rightarrow> sk_buff" where
  "pkt_skb b = \<lparr>skb_data = b, ip_summed = CHECKSUM_UNNECESSARY, csum = 0, nfct = None, nfctinfo = 0, nfmark = 0,
     dst_pmtu = None, tailroom = 0, cloned = False, copy_fails = False\<rparr>"

text \<open>A packet without payload from one end to the other: addresses and ports, both as bytes.\<close>

definition ip_pkt :: "u8 \<Rightarrow> u8 list \<Rightarrow> u8 list \<Rightarrow> u8 list \<Rightarrow> sk_buff" where
  "ip_pkt p saddr daddr l4hdr = pkt_skb ([0x45, 0, 0, 20 + of_nat (length l4hdr), 0, 0, 0, 0, 64, p, 0, 0] @ saddr @ daddr @ l4hdr)"

definition lan_host :: "u8 list" where "lan_host = [192, 168, 2, 10]"
definition web_host :: "u8 list" where "web_host = [203, 0, 113, 80]"

definition syn_pkt :: sk_buff where
  "syn_pkt = ip_pkt 6 lan_host web_host ([0x30, 0x39, 0, 80, 0, 0, 0, 1, 0, 0, 0, 0, 0x50, 0x02, 0x20, 0] @ replicate 4 0)"

definition synack_pkt :: sk_buff where
  "synack_pkt = ip_pkt 6 web_host lan_host ([0, 80, 0x30, 0x39, 0, 0, 1, 0, 0, 0, 0, 2, 0x50, 0x12, 0x20, 0] @ replicate 4 0)"

definition sample_tuple :: ip_conntrack_tuple where
  "sample_tuple = the (ip_ct_get_tuple (skb_data syn_pkt) syn_pkt 20 (l4_find 6))"

lemma sample_tuple_eq: "ip_ct_get_tuple (skb_data syn_pkt) syn_pkt 20 (l4_find 6) = Some sample_tuple"
proof -
  have "ip_ct_get_tuple (skb_data syn_pkt) syn_pkt 20 (l4_find 6) \<noteq> None" by code_simp
  then show ?thesis by (auto simp: sample_tuple_def)
qed

theorem tuple_inverts_witness:
  "\<exists>t'. invert_tuplepr sample_tuple = Some t' \<and> invert_tuplepr t' = Some sample_tuple"
proof -
  have p: "iph_protocol (skb_data syn_pkt) = 6" by code_simp
  have "invert_tuplepr sample_tuple \<noteq> None" by code_simp
  then obtain t' where t': "invert_tuplepr sample_tuple = Some t'" by auto
  from tuple_inverts [OF _ t', of "skb_data syn_pkt" syn_pkt 20] show ?thesis
    using t' sample_tuple_eq by (simp add: p)
qed


end
