(* ===== verification/Ct_Tcp_Window.thy ===== *)
theory Ct_Tcp_Window
  imports Ct_Tuple
begin

section \<open>TCP: options, windows and the state table\<close>

text \<open>
  The part of \<^verbatim>\<open>net/ipv4/netfilter/ip_conntrack_proto_tcp.c\<close> that works on \<open>struct ip_ct_tcp\<close>
  alone: the option parsers \<open>tcp_options\<close> and \<open>tcp_sack\<close>, \<open>tcp_in_window\<close>, the transition table
  \<open>tcp_conntracks\<close> and \<open>tcp_error\<close>, with the structures of \<^verbatim>\<open>nf_conntrack_tcp.h\<close>.

  The option parsers move a pointer through the packet. A read past the end of the packet is the
  value \<open>None\<close>, and so is a failed \<open>BUG_ON\<close>. The window functions work modulo \<open>2 ^ 32\<close> as the
  source does; their meaning is given over the integers, for numbers less than \<open>2 ^ 31\<close> apart.
\<close>

subsection \<open>Structures and constants\<close>

datatype tcp_conntrack = sNO | sSS | sSR | sES | sFW | sCW | sLA | sTW | sCL | sLI | sIV | sIG

primrec tcp_ord :: "tcp_conntrack \<Rightarrow> nat" where
  "tcp_ord sNO = 0" | "tcp_ord sSS = 1" | "tcp_ord sSR = 2" | "tcp_ord sES = 3" | "tcp_ord sFW = 4" | "tcp_ord sCW = 5"
| "tcp_ord sLA = 6" | "tcp_ord sTW = 7" | "tcp_ord sCL = 8" | "tcp_ord sLI = 9" | "tcp_ord sIV = 10" | "tcp_ord sIG = 11"

lemma tcp_ord_inject: "tcp_ord x = tcp_ord y \<longleftrightarrow> x = y"
  by (cases x; cases y) simp_all

instantiation tcp_conntrack :: linorder
begin

definition less_eq_tcp_conntrack :: "tcp_conntrack \<Rightarrow> tcp_conntrack \<Rightarrow> bool" where
  "less_eq_tcp_conntrack x y \<longleftrightarrow> tcp_ord x \<le> tcp_ord y"

definition less_tcp_conntrack :: "tcp_conntrack \<Rightarrow> tcp_conntrack \<Rightarrow> bool" where
  "less_tcp_conntrack x y \<longleftrightarrow> tcp_ord x < tcp_ord y"

instance
  by standard (auto simp: less_eq_tcp_conntrack_def less_tcp_conntrack_def tcp_ord_inject)

end

datatype tcp_bit_set = TCP_SYN_SET | TCP_SYNACK_SET | TCP_FIN_SET | TCP_ACK_SET | TCP_RST_SET | TCP_NONE_SET

primrec bit_set_ord :: "tcp_bit_set \<Rightarrow> nat" where
  "bit_set_ord TCP_SYN_SET = 0" | "bit_set_ord TCP_SYNACK_SET = 1" | "bit_set_ord TCP_FIN_SET = 2"
| "bit_set_ord TCP_ACK_SET = 3" | "bit_set_ord TCP_RST_SET = 4" | "bit_set_ord TCP_NONE_SET = 5"

record ip_ct_tcp_state =
  td_end :: u32
  td_maxend :: u32
  td_maxwin :: u32
  td_scale :: u8
  loose :: u8
  tflags :: u8

record ip_ct_tcp =
  seen :: "ip_ct_tcp_state \<times> ip_ct_tcp_state"
  tstate :: tcp_conntrack
  last_dir :: u8
  retrans :: u8
  last_index :: tcp_bit_set
  last_seq :: u32
  last_ack :: u32
  last_end :: u32

definition seen_at :: "ip_ct_tcp \<Rightarrow> u8 \<Rightarrow> ip_ct_tcp_state" where
  "seen_at st d = (if d = IP_CT_DIR_ORIGINAL then fst (seen st) else snd (seen st))"

definition other_dir :: "u8 \<Rightarrow> u8" where
  "other_dir d = (if d = 0 then 1 else 0)"

definition set_seen :: "ip_ct_tcp \<Rightarrow> u8 \<Rightarrow> ip_ct_tcp_state \<Rightarrow> ip_ct_tcp_state \<Rightarrow> ip_ct_tcp" where
  "set_seen st d sender receiver =
     st\<lparr>seen := (if d = IP_CT_DIR_ORIGINAL then (sender, receiver) else (receiver, sender))\<rparr>"

lemma seen_at_set_seen [simp]:
  "seen_at (set_seen st d s r) d = s" "seen_at (set_seen st d s r) (other_dir d) = r"
  by (simp_all add: seen_at_def set_seen_def other_dir_def)

lemma tstate_set_seen [simp]: "tstate (set_seen st d s r) = tstate st"
  by (simp add: set_seen_def)

abbreviation (input) IP_CT_TCP_FLAG_WINDOW_SCALE :: u8 where "IP_CT_TCP_FLAG_WINDOW_SCALE \<equiv> 0x01"
abbreviation (input) IP_CT_TCP_FLAG_SACK_PERM :: u8 where "IP_CT_TCP_FLAG_SACK_PERM \<equiv> 0x02"
abbreviation (input) IP_CT_TCP_FLAG_CLOSE_INIT :: u8 where "IP_CT_TCP_FLAG_CLOSE_INIT \<equiv> 0x03"

text \<open>The tunables of the protocol, set through \<^verbatim>\<open>/proc/sys\<close>.\<close>

record tcp_sysctl =
  be_liberal :: int
  loose_max :: int
  max_retrans :: int
  timeout_max_retrans :: u32
  timeout_of :: "tcp_conntrack \<Rightarrow> u32 option"

definition tcp_timeouts :: "tcp_conntrack \<Rightarrow> u32 option" where
  "tcp_timeouts s =
     (case s of
        sSS \<Rightarrow> Some (2 * 60 * HZ) | sSR \<Rightarrow> Some (60 * HZ) | sES \<Rightarrow> Some (26 * 60 * HZ) | sFW \<Rightarrow> Some (2 * 60 * HZ)
      | sCW \<Rightarrow> Some (60 * HZ) | sLA \<Rightarrow> Some (30 * HZ) | sTW \<Rightarrow> Some (2 * HZ) | sCL \<Rightarrow> Some (10 * HZ) | _ \<Rightarrow> None)"

definition tcp_defaults :: tcp_sysctl where
  "tcp_defaults = \<lparr>be_liberal = 0, loose_max = 3, max_retrans = 3, timeout_max_retrans = 5 * 60 * HZ,
     timeout_of = tcp_timeouts\<rparr>"

subsection \<open>The transition table\<close>

definition tcp_conntracks :: "tcp_conntrack list list list" where
  "tcp_conntracks =
    [[[sSS, sSS, sIG, sIG, sIG, sIG, sIG, sSS, sSS, sIV],
      [sIV, sIV, sIV, sIV, sIV, sIV, sIV, sIV, sIV, sIV],
      [sIV, sIV, sFW, sFW, sLA, sLA, sLA, sTW, sCL, sIV],
      [sES, sIV, sES, sES, sCW, sCW, sTW, sTW, sCL, sIV],
      [sIV, sCL, sCL, sCL, sCL, sCL, sCL, sCL, sCL, sIV],
      [sIV, sIV, sIV, sIV, sIV, sIV, sIV, sIV, sIV, sIV]],
     [[sIV, sIV, sIV, sIV, sIV, sIV, sIV, sIV, sIV, sIV],
      [sIV, sSR, sSR, sIG, sIG, sIG, sIG, sIG, sIG, sIV],
      [sIV, sIV, sFW, sFW, sLA, sLA, sLA, sTW, sCL, sIV],
      [sIV, sIG, sSR, sES, sCW, sCW, sTW, sTW, sCL, sIV],
      [sIV, sCL, sCL, sCL, sCL, sCL, sCL, sCL, sCL, sIV],
      [sIV, sIV, sIV, sIV, sIV, sIV, sIV, sIV, sIV, sIV]]]"

definition tcp_next :: "u8 \<Rightarrow> tcp_bit_set \<Rightarrow> tcp_conntrack \<Rightarrow> tcp_conntrack" where
  "tcp_next d idx s = tcp_conntracks ! unat d ! bit_set_ord idx ! tcp_ord s"

definition get_conntrack_index :: "u8 list \<Rightarrow> tcp_bit_set" where
  "get_conntrack_index th =
     (if tcph_rst th then TCP_RST_SET
      else if tcph_syn th then (if tcph_ack th then TCP_SYNACK_SET else TCP_SYN_SET)
      else if tcph_fin th then TCP_FIN_SET
      else if tcph_ack th then TCP_ACK_SET
      else TCP_NONE_SET)"

subsection \<open>Sequence numbers and options\<close>

definition segment_seq_plus_len :: "u32 \<Rightarrow> nat \<Rightarrow> u8 list \<Rightarrow> u8 list \<Rightarrow> u32" where
  "segment_seq_plus_len seq len iph th =
     seq + of_nat len - of_nat ((iph_ihl iph + tcph_doff th) * 4)
       + (if tcph_syn th then 1 else 0) + (if tcph_fin th then 1 else 0)"

abbreviation (input) MAXACKWINCONST :: u32 where "MAXACKWINCONST \<equiv> 66000"

definition MAXACKWINDOW :: "ip_ct_tcp_state \<Rightarrow> u32" where
  "MAXACKWINDOW sender = (if MAXACKWINCONST < td_maxwin sender then td_maxwin sender else MAXACKWINCONST)"

abbreviation (input) TCPOPT_EOL :: u8 where "TCPOPT_EOL \<equiv> 0"
abbreviation (input) TCPOPT_NOP :: u8 where "TCPOPT_NOP \<equiv> 1"
abbreviation (input) TCPOPT_WINDOW :: u8 where "TCPOPT_WINDOW \<equiv> 3"
abbreviation (input) TCPOPT_SACK_PERM :: u8 where "TCPOPT_SACK_PERM \<equiv> 4"
abbreviation (input) TCPOPT_SACK :: u8 where "TCPOPT_SACK \<equiv> 5"
abbreviation (input) TCPOPT_TIMESTAMP :: u8 where "TCPOPT_TIMESTAMP \<equiv> 8"
abbreviation (input) TCPOLEN_WINDOW :: u8 where "TCPOLEN_WINDOW \<equiv> 3"
abbreviation (input) TCPOLEN_SACK_PERM :: u8 where "TCPOLEN_SACK_PERM \<equiv> 2"
abbreviation (input) TCPOLEN_SACK_BASE :: nat where "TCPOLEN_SACK_BASE \<equiv> 2"
abbreviation (input) TCPOLEN_SACK_PERBLOCK :: nat where "TCPOLEN_SACK_PERBLOCK \<equiv> 8"
abbreviation (input) TCPOLEN_TSTAMP_ALIGNED :: int where "TCPOLEN_TSTAMP_ALIGNED \<equiv> 12"

definition peek :: "u8 list \<Rightarrow> nat \<Rightarrow> u8 option" where
  "peek b p = (if p < length b then Some (b ! p) else None)"

text \<open>The loop of \<open>tcp_options\<close>. The \<open>break\<close> for a partial option leaves only the \<open>switch\<close>: the loop
  goes on behind its two bytes with the same \<open>length\<close>.\<close>

function tcp_options_loop :: "u8 list \<Rightarrow> nat \<Rightarrow> int \<Rightarrow> ip_ct_tcp_state \<Rightarrow> ip_ct_tcp_state option" where
  "tcp_options_loop b p len st =
     (if len \<le> 0 then Some st
      else case peek b p of
        None \<Rightarrow> None
      | Some opcode \<Rightarrow>
          if opcode = TCPOPT_EOL then Some st
          else if opcode = TCPOPT_NOP then tcp_options_loop b (Suc p) (len - 1) st
          else (case peek b (Suc p) of
            None \<Rightarrow> None
          | Some opsize \<Rightarrow>
              if opsize < 2 then Some st
              else if len < uint opsize then tcp_options_loop b (Suc (Suc p)) len st
              else if opcode = TCPOPT_SACK_PERM \<and> opsize = TCPOLEN_SACK_PERM
              then tcp_options_loop b (p + unat opsize) (len - uint opsize)
                     (st\<lparr>tflags := tflags st OR IP_CT_TCP_FLAG_SACK_PERM\<rparr>)
              else if opcode = TCPOPT_WINDOW \<and> opsize = TCPOLEN_WINDOW
              then (case peek b (Suc (Suc p)) of
                  None \<Rightarrow> None
                | Some v \<Rightarrow> tcp_options_loop b (p + unat opsize) (len - uint opsize)
                    (st\<lparr>td_scale := (if 14 < v then 14 else v), tflags := tflags st OR IP_CT_TCP_FLAG_WINDOW_SCALE\<rparr>))
              else tcp_options_loop b (p + unat opsize) (len - uint opsize) st))"
  by pat_completeness auto

termination
  by (relation "measure (\<lambda>(b, p, len, st). length b - p)")
    (auto simp: peek_def word_less_nat_alt split: if_splits)

declare tcp_options_loop.simps [simp del]

definition opt_length :: "u8 list \<Rightarrow> int" where
  "opt_length th = int (tcph_doff th * 4) - 20"

definition tcp_options :: "sk_buff \<Rightarrow> u8 list \<Rightarrow> u8 list \<Rightarrow> ip_ct_tcp_state \<Rightarrow> ip_ct_tcp_state option" where
  "tcp_options skb iph th st =
     (if opt_length th = 0 then Some st
      else if int (skb_len skb) < int (iph_ihl iph * 4 + 20) + opt_length th then None
      else tcp_options_loop (skb_data skb) (iph_ihl iph * 4 + 20) (opt_length th) (st\<lparr>td_scale := 0, tflags := 0\<rparr>))"

fun sack_blocks :: "u8 list \<Rightarrow> nat \<Rightarrow> nat \<Rightarrow> u32 \<Rightarrow> u32 option" where
  "sack_blocks b q 0 sack = Some sack"
| "sack_blocks b q (Suc n) sack =
     (if length b < q + 8 then None
      else sack_blocks b (q + 8) n
             (if after (ntohl (rd32 b (q + 4))) sack then ntohl (rd32 b (q + 4)) else sack))"

function tcp_sack_loop :: "u8 list \<Rightarrow> nat \<Rightarrow> int \<Rightarrow> u32 \<Rightarrow> u32 option" where
  "tcp_sack_loop b p len sack =
     (if len \<le> 0 then Some sack
      else case peek b p of
        None \<Rightarrow> None
      | Some opcode \<Rightarrow>
          if opcode = TCPOPT_EOL then Some sack
          else if opcode = TCPOPT_NOP then tcp_sack_loop b (Suc p) (len - 1) sack
          else (case peek b (Suc p) of
            None \<Rightarrow> None
          | Some opsize \<Rightarrow>
              if opsize < 2 then Some sack
              else if len < uint opsize then tcp_sack_loop b (Suc (Suc p)) len sack
              else if opcode = TCPOPT_SACK \<and> TCPOLEN_SACK_BASE + TCPOLEN_SACK_PERBLOCK \<le> unat opsize
                \<and> (unat opsize - TCPOLEN_SACK_BASE) mod TCPOLEN_SACK_PERBLOCK = 0
              then sack_blocks b (Suc (Suc p)) ((unat opsize - TCPOLEN_SACK_BASE) div TCPOLEN_SACK_PERBLOCK) sack
              else tcp_sack_loop b (p + unat opsize) (len - uint opsize) sack))"
  by pat_completeness auto

termination
  by (relation "measure (\<lambda>(b, p, len, sack). length b - p)")
    (auto simp: peek_def word_less_nat_alt split: if_splits)

declare tcp_sack_loop.simps [simp del]

definition tcp_sack :: "sk_buff \<Rightarrow> u8 list \<Rightarrow> u8 list \<Rightarrow> u32 \<Rightarrow> u32 option" where
  "tcp_sack skb iph th sack =
     (if opt_length th = 0 then Some sack
      else if int (skb_len skb) < int (iph_ihl iph * 4 + 20) + opt_length th then None
      else if opt_length th = TCPOLEN_TSTAMP_ALIGNED * 4
        \<and> rd32 (skb_data skb) (iph_ihl iph * 4 + 20) = ntohl 0x0101080a then Some sack
      else tcp_sack_loop (skb_data skb) (iph_ihl iph * 4 + 20) (opt_length th) sack)"


subsection \<open>The window\<close>

text \<open>\<open>tcp_in_window\<close> in its four steps: the sender's data when it is seen for the first time or has
  restarted, the acknowledgement and sequence numbers to be checked, the check, and the update.\<close>

definition tcp_win_init :: "ip_ct_tcp \<Rightarrow> u8 \<Rightarrow> sk_buff \<Rightarrow> u8 list \<Rightarrow> u8 list \<Rightarrow> u32 \<Rightarrow> u32
    \<Rightarrow> (ip_ct_tcp_state \<times> ip_ct_tcp_state) option" where
  "tcp_win_init st d skb iph th e win =
     (let sender = seen_at st d; receiver = seen_at st (other_dir d);
          fresh = sender\<lparr>td_end := e, td_maxend := e, td_maxwin := (if win = 0 then 1 else win)\<rparr> in
      if td_end sender = 0 then
        (if tcph_syn th \<and> tcph_ack th then
           (case tcp_options skb iph th fresh of
              None \<Rightarrow> None
            | Some s \<Rightarrow>
                if tflags s AND IP_CT_TCP_FLAG_WINDOW_SCALE \<noteq> 0 \<and> tflags receiver AND IP_CT_TCP_FLAG_WINDOW_SCALE \<noteq> 0
                then Some (s, receiver)
                else Some (s\<lparr>td_scale := 0\<rparr>, receiver\<lparr>td_scale := 0\<rparr>))
         else Some (fresh\<lparr>td_maxend := e + td_maxwin fresh\<rparr>, receiver))
      else if (tstate st = sSS \<and> d = IP_CT_DIR_ORIGINAL \<or> tstate st = sSR \<and> d = IP_CT_DIR_REPLY)
        \<and> after e (td_end sender)
      then map_option (\<lambda>s. (s, receiver)) (tcp_options skb iph th fresh)
      else Some (sender, receiver))"

definition tcp_win_acks :: "ip_ct_tcp_state \<Rightarrow> u8 list \<Rightarrow> u32 \<Rightarrow> u32 \<Rightarrow> u32 \<times> u32" where
  "tcp_win_acks receiver th ack sack =
     (if \<not> tcph_ack th then (td_end receiver, td_end receiver)
      else if tcph_rst th \<and> ack = 0 then (td_end receiver, td_end receiver)
      else (ack, sack))"

definition tcp_win_seqs :: "tcp_conntrack \<Rightarrow> ip_ct_tcp_state \<Rightarrow> u8 list \<Rightarrow> u32 \<Rightarrow> u32 \<Rightarrow> u32 \<times> u32" where
  "tcp_win_seqs s sender th seq e =
     (if seq = e \<and> (\<not> tcph_rst th \<or> seq = 0 \<and> s = sSS) then (td_end sender, td_end sender) else (seq, e))"

definition tcp_win_ok :: "ip_ct_tcp_state \<Rightarrow> ip_ct_tcp_state \<Rightarrow> u32 \<Rightarrow> u32 \<Rightarrow> u32 \<Rightarrow> u32 \<Rightarrow> bool" where
  "tcp_win_ok sender receiver seq e ack sack \<longleftrightarrow>
     before seq (td_maxend sender + 1)
     \<and> after e (td_end sender - td_maxwin receiver - 1)
     \<and> before sack (td_end receiver + 1)
     \<and> after ack (td_end receiver - MAXACKWINDOW sender)"

definition win_sender :: "ip_ct_tcp_state \<Rightarrow> u32 \<Rightarrow> u32 \<Rightarrow> ip_ct_tcp_state" where
  "win_sender sender e swin =
     sender\<lparr>td_maxwin := (if td_maxwin sender < swin then swin else td_maxwin sender),
       td_end := (if after e (td_end sender) then e else td_end sender),
       loose := (if loose sender \<noteq> 0 then loose sender - 1 else loose sender)\<rparr>"

definition win_receiver :: "ip_ct_tcp_state \<Rightarrow> ip_ct_tcp_state \<Rightarrow> u32 \<Rightarrow> u32 \<Rightarrow> u32 \<Rightarrow> ip_ct_tcp_state" where
  "win_receiver sender receiver e sack win =
     receiver\<lparr>td_maxwin := td_maxwin receiver + (if after e (td_maxend sender) then e - td_maxend sender else 0),
       td_maxend := (if after (sack + win) (td_maxend receiver - 1)
                     then sack + win + (if win = 0 then 1 else 0) else td_maxend receiver)\<rparr>"

definition win_retrans :: "ip_ct_tcp \<Rightarrow> u8 \<Rightarrow> tcp_bit_set \<Rightarrow> u32 \<Rightarrow> u32 \<Rightarrow> u32 \<Rightarrow> ip_ct_tcp" where
  "win_retrans st d idx seq ack e =
     (if idx = TCP_ACK_SET
      then (if last_dir st = d \<and> last_seq st = seq \<and> last_ack st = ack \<and> last_end st = e
            then st\<lparr>retrans := retrans st + 1\<rparr>
            else st\<lparr>last_dir := d, last_seq := seq, last_ack := ack, last_end := e, retrans := 0\<rparr>)
      else st)"

definition tcp_win_update :: "ip_ct_tcp \<Rightarrow> u8 \<Rightarrow> tcp_bit_set \<Rightarrow> u8 list \<Rightarrow> ip_ct_tcp_state \<Rightarrow> ip_ct_tcp_state
    \<Rightarrow> u32 \<Rightarrow> u32 \<Rightarrow> u32 \<Rightarrow> u32 \<Rightarrow> u32 \<Rightarrow> ip_ct_tcp" where
  "tcp_win_update st d idx th sender receiver seq e ack sack win0 =
     (let win = (if tcph_syn th then win0 else push_bit (unat (td_scale sender)) win0)
      in set_seen (win_retrans st d idx seq ack e) d
           (win_sender sender e (win + (sack - ack))) (win_receiver sender receiver e sack win))"

definition tcp_in_window :: "tcp_sysctl \<Rightarrow> ip_ct_tcp \<Rightarrow> u8 \<Rightarrow> tcp_bit_set \<Rightarrow> sk_buff \<Rightarrow> u8 list \<Rightarrow> u8 list
    \<Rightarrow> (int \<times> ip_ct_tcp) option" where
  "tcp_in_window cfg st d idx skb iph th =
     (let seq0 = ntohl (tcph_seq th); ack0 = ntohl (tcph_ack_seq th);
          win = ucast (ntohs (tcph_window th)) :: u32;
          e0 = segment_seq_plus_len seq0 (skb_len skb) iph th in
      case (if tflags (seen_at st (other_dir d)) AND IP_CT_TCP_FLAG_SACK_PERM \<noteq> 0
            then tcp_sack skb iph th ack0 else Some ack0) of
        None \<Rightarrow> None
      | Some sack0 \<Rightarrow>
          (case tcp_win_init st d skb iph th e0 win of
             None \<Rightarrow> None
           | Some (sender, receiver) \<Rightarrow>
               let (ack, sack) = tcp_win_acks receiver th ack0 sack0;
                   (seq, e) = tcp_win_seqs (tstate st) sender th seq0 e0
               in if loose sender \<noteq> 0 \<or> loose receiver \<noteq> 0 \<or> tcp_win_ok sender receiver seq e ack sack
                  then Some (1, tcp_win_update st d idx th sender receiver seq e ack sack win)
                  else Some (be_liberal cfg, set_seen st d sender receiver)))"

definition ip_conntrack_tcp_update :: "sk_buff \<Rightarrow> u8 \<Rightarrow> ip_ct_tcp \<Rightarrow> ip_ct_tcp" where
  "ip_conntrack_tcp_update skb d st =
     (let iph = skb_data skb; th = drop (iph_ihl iph * 4) (skb_data skb);
          e = segment_seq_plus_len (ntohl (tcph_seq th)) (skb_len skb) iph th;
          sender = seen_at st d in
      (if after e (td_end sender) then set_seen st d (sender\<lparr>td_end := e\<rparr>) (seen_at st (other_dir d)) else st)
        \<lparr>last_end := e\<rparr>)"

subsection \<open>Broken packets\<close>

abbreviation (input) TH_FIN :: u8 where "TH_FIN \<equiv> 0x01"
abbreviation (input) TH_SYN :: u8 where "TH_SYN \<equiv> 0x02"
abbreviation (input) TH_RST :: u8 where "TH_RST \<equiv> 0x04"
abbreviation (input) TH_PUSH :: u8 where "TH_PUSH \<equiv> 0x08"
abbreviation (input) TH_ACK :: u8 where "TH_ACK \<equiv> 0x10"
abbreviation (input) TH_URG :: u8 where "TH_URG \<equiv> 0x20"
abbreviation (input) TH_ECE :: u8 where "TH_ECE \<equiv> 0x40"
abbreviation (input) TH_CWR :: u8 where "TH_CWR \<equiv> 0x80"

definition tcp_valid_flags :: "u8 list" where
  "tcp_valid_flags =
     [TH_SYN, TH_SYN OR TH_ACK, TH_SYN OR TH_PUSH, TH_SYN OR TH_ACK OR TH_PUSH,
      TH_RST, TH_RST OR TH_ACK, TH_RST OR TH_ACK OR TH_PUSH,
      TH_FIN OR TH_ACK, TH_ACK, TH_ACK OR TH_PUSH, TH_ACK OR TH_URG, TH_ACK OR TH_URG OR TH_PUSH,
      TH_FIN OR TH_ACK OR TH_PUSH, TH_FIN OR TH_ACK OR TH_URG, TH_FIN OR TH_ACK OR TH_URG OR TH_PUSH]"

text \<open>The checksum over a linear packet: \<open>skb_checksum\<close> is \<open>csum_partial\<close> of its bytes.\<close>

definition l4_csum :: "sk_buff \<Rightarrow> nat \<Rightarrow> nat \<Rightarrow> u32" where
  "l4_csum skb off len =
     (if ip_summed skb = CHECKSUM_HW then csum skb else csum_partial (take len (drop off (skb_data skb))) 0)"

definition tcp_error :: "sk_buff \<Rightarrow> nat \<Rightarrow> int" where
  "tcp_error skb hooknum =
     (let iph = skb_data skb; off = iph_ihl iph * 4; tcplen = of_nat (skb_len skb) - of_nat off :: u32 in
      case skb_header_pointer skb off 20 of
        None \<Rightarrow> - 1
      | Some th \<Rightarrow>
          if tcph_doff th * 4 < 20 \<or> tcplen < of_nat (tcph_doff th * 4) then - 1
          else if hooknum = NF_IP_PRE_ROUTING \<and> ip_summed skb \<noteq> CHECKSUM_UNNECESSARY
            \<and> csum_tcpudp_magic (iph_saddr iph) (iph_daddr iph) (ucast tcplen) (ucast IPPROTO_TCP)
                (l4_csum skb off (unat tcplen)) \<noteq> 0 then - 1
          else if rd8 th 13 AND NOT (TH_ECE OR TH_CWR) \<notin> set tcp_valid_flags then - 1
          else 1)"


subsection \<open>What the window check decides\<close>

lemma sint_of_int_near: "\<bar>x\<bar> < 2 ^ 31 \<Longrightarrow> sint (of_int x :: u32) = x"
  by (simp add: signed_of_int signed_take_bit_int_eq_self)

lemma before_of_int [seq_simps]: "\<bar>a - b\<bar> < 2 ^ 31 \<Longrightarrow> before (of_int a) (of_int b) \<longleftrightarrow> a < b"
  using sint_of_int_near [of "a - b"] by (simp add: before_def)

lemma after_of_int [seq_simps]: "\<bar>a - b\<bar> < 2 ^ 31 \<Longrightarrow> after (of_int a) (of_int b) \<longleftrightarrow> b < a"
  using before_of_int [of b a] by (simp add: after_before abs_minus_commute)

text \<open>The four bounds of the comment above \<open>segment_seq_plus_len\<close>, over the integers: \<open>s\<close> and \<open>r\<close> are
  the sender's and the receiver's data, \<open>seq\<close>, \<open>e\<close>, \<open>ack\<close>, \<open>sack\<close> the numbers of the segment, \<open>se\<close>, \<open>sm\<close>, \<open>re\<close>
  the numbers of \<open>td_end s\<close>, \<open>td_maxend s\<close> and \<open>td_end r\<close>.\<close>

definition in_bounds :: "ip_ct_tcp_state \<Rightarrow> ip_ct_tcp_state \<Rightarrow> int \<Rightarrow> int \<Rightarrow> int \<Rightarrow> int \<Rightarrow> int \<Rightarrow> int \<Rightarrow> int \<Rightarrow> bool" where
  "in_bounds s r seq e ack sack se sm re \<longleftrightarrow>
     seq \<le> sm \<and> se - uint (td_maxwin r) \<le> e \<and> sack \<le> re \<and> re - uint (MAXACKWINDOW s) < ack"

definition near_bounds :: "ip_ct_tcp_state \<Rightarrow> ip_ct_tcp_state \<Rightarrow> int \<Rightarrow> int \<Rightarrow> int \<Rightarrow> int \<Rightarrow> int \<Rightarrow> int \<Rightarrow> int \<Rightarrow> bool" where
  "near_bounds s r seq e ack sack se sm re \<longleftrightarrow>
     \<bar>seq - (sm + 1)\<bar> < 2 ^ 31 \<and> \<bar>e - (se - uint (td_maxwin r) - 1)\<bar> < 2 ^ 31
     \<and> \<bar>sack - (re + 1)\<bar> < 2 ^ 31 \<and> \<bar>ack - (re - uint (MAXACKWINDOW s))\<bar> < 2 ^ 31"

lemma tcp_win_ok_in_bounds:
  assumes "near_bounds s r seq e ack sack se sm re"
    and "td_end s = of_int se" "td_maxend s = of_int sm" "td_end r = of_int re"
  shows "tcp_win_ok s r (of_int seq) (of_int e) (of_int ack) (of_int sack)
    \<longleftrightarrow> in_bounds s r seq e ack sack se sm re"
proof -
  have w: "td_maxwin r = of_int (uint (td_maxwin r))" "MAXACKWINDOW s = of_int (uint (MAXACKWINDOW s))"
    by simp_all
  have "before (of_int seq) (td_maxend s + 1) \<longleftrightarrow> seq < sm + 1"
    using before_of_int [of seq "sm + 1"] assms by (simp add: near_bounds_def)
  moreover have "after (of_int e) (td_end s - td_maxwin r - 1) \<longleftrightarrow> se - uint (td_maxwin r) - 1 < e"
    using after_of_int [of e "se - uint (td_maxwin r) - 1"] assms by (simp add: near_bounds_def)
  moreover have "before (of_int sack) (td_end r + 1) \<longleftrightarrow> sack < re + 1"
    using before_of_int [of sack "re + 1"] assms by (simp add: near_bounds_def)
  moreover have "after (of_int ack) (td_end r - MAXACKWINDOW s) \<longleftrightarrow> re - uint (MAXACKWINDOW s) < ack"
    using after_of_int [of ack "re - uint (MAXACKWINDOW s)"] assms by (simp add: near_bounds_def)
  ultimately show ?thesis by (auto simp: tcp_win_ok_def in_bounds_def)
qed



subsection \<open>What the option parser reads\<close>

text \<open>Options as RFC 793 writes them: a single no-op byte, or a kind, a length that counts itself and the
  kind, and a value.\<close>

datatype tcp_opt = Nop | Opt u8 "u8 list"

fun enc_opt :: "tcp_opt \<Rightarrow> u8 list" where
  "enc_opt Nop = [TCPOPT_NOP]"
| "enc_opt (Opt k v) = k # of_nat (length v + 2) # v"

fun wf_opt :: "tcp_opt \<Rightarrow> bool" where
  "wf_opt Nop \<longleftrightarrow> True"
| "wf_opt (Opt k v) \<longleftrightarrow> k \<noteq> TCPOPT_EOL \<and> k \<noteq> TCPOPT_NOP \<and> length v + 2 < 256"

definition enc_opts :: "tcp_opt list \<Rightarrow> u8 list" where
  "enc_opts os = concat (map enc_opt os)"

fun apply_opt :: "tcp_opt \<Rightarrow> ip_ct_tcp_state \<Rightarrow> ip_ct_tcp_state" where
  "apply_opt Nop st = st"
| "apply_opt (Opt k v) st =
     (if k = TCPOPT_SACK_PERM \<and> v = [] then st\<lparr>tflags := tflags st OR IP_CT_TCP_FLAG_SACK_PERM\<rparr>
      else if k = TCPOPT_WINDOW \<and> length v = 1
      then st\<lparr>td_scale := min 14 (hd v), tflags := tflags st OR IP_CT_TCP_FLAG_WINDOW_SCALE\<rparr>
      else st)"

lemma peek_append: "peek (pre @ xs) (length pre + i) = peek xs i"
  by (simp add: peek_def nth_append)

lemma peek_append_0: "peek (pre @ x # xs) (length pre) = Some x"
  by (simp add: peek_def)

lemma peek_append_1: "peek (pre @ x # y # xs) (Suc (length pre)) = Some y"
  by (simp add: peek_def nth_append)

lemma peek_append_2: "peek (pre @ x # y # z # xs) (Suc (Suc (length pre))) = Some z"
  by (simp add: peek_def nth_append)

lemma tcp_options_at:
  assumes "peek b p = Some k" "peek b (Suc p) = Some sz" "k \<noteq> 0" "k \<noteq> 1" "unat sz = n + 2" "int (n + 2) \<le> len"
    and "n = 1 \<Longrightarrow> peek b (Suc (Suc p)) = Some v"
  shows "tcp_options_loop b p len st = tcp_options_loop b (p + (n + 2)) (len - int (n + 2))
    (if k = TCPOPT_SACK_PERM \<and> n = 0 then st\<lparr>tflags := tflags st OR IP_CT_TCP_FLAG_SACK_PERM\<rparr>
     else if k = TCPOPT_WINDOW \<and> n = 1
     then st\<lparr>td_scale := min 14 v, tflags := tflags st OR IP_CT_TCP_FLAG_WINDOW_SCALE\<rparr> else st)"
proof -
  have u: "uint sz = int (n + 2)" using assms(5) by (metis uint_nat)
  have sz: "\<not> sz < 2" "sz = 2 \<longleftrightarrow> n = 0" "sz = 3 \<longleftrightarrow> n = 1" "\<not> len < uint sz" "\<not> len \<le> 0"
    using assms(5,6) u by (auto simp: word_less_nat_alt word_unat_eq_iff)
  have m: "min 14 v = (if 14 < v then 14 else v)" by (auto simp: min_def)
  have "n = 1 \<Longrightarrow> (case peek b (Suc (Suc p)) of None \<Rightarrow> None | Some v \<Rightarrow> g v) = g v"
    for g :: "u8 \<Rightarrow> ip_ct_tcp_state option" using assms(7) by simp
  then show ?thesis
    unfolding tcp_options_loop.simps [of b p] assms(1,2) option.case sz(2,3) m
    using assms(3,4) sz by (simp only: u assms(5) if_True if_False simp_thms split: if_split) auto
qed

lemma tcp_options_step:
  assumes "wf_opt opt" "int (length (enc_opt opt)) \<le> len"
  shows "tcp_options_loop (pre @ enc_opt opt @ rest) (length pre) len st
    = tcp_options_loop (pre @ enc_opt opt @ rest) (length pre + length (enc_opt opt)) (len - int (length (enc_opt opt)))
        (apply_opt opt st)"
proof (cases opt)
  case Nop
  then show ?thesis
    using assms by (subst tcp_options_loop.simps) (simp add: peek_append_0)
next
  case (Opt k v)
  have n: "unat (of_nat (length v + 2) :: u8) = length v + 2"
    unfolding unat_of_nat using assms(1) Opt by simp
  have "peek (pre @ k # of_nat (length v + 2) # v @ rest) (Suc (Suc (length pre))) = Some (hd v)" if "length v = 1"
    using that peek_append_2 [of pre k "of_nat (length v + 2)" "hd v" rest] by (cases v) auto
  from tcp_options_at [OF peek_append_0 peek_append_1 _ _ n _ this] show ?thesis
    using assms Opt by (simp del: of_nat_add of_nat_Suc)
qed

lemma tcp_options_run:
  assumes "\<forall>opt \<in> set os. wf_opt opt" "0 \<le> extra"
  shows "tcp_options_loop (pre @ enc_opts os @ rest) (length pre) (int (length (enc_opts os)) + extra) st
    = tcp_options_loop (pre @ enc_opts os @ rest) (length pre + length (enc_opts os)) extra (fold apply_opt os st)"
  using assms(1)
proof (induction os arbitrary: pre st)
  case (Cons opt os)
  have "tcp_options_loop (pre @ enc_opt opt @ (enc_opts os @ rest)) (length pre) (int (length (enc_opts (opt # os))) + extra) st
      = tcp_options_loop (pre @ enc_opt opt @ (enc_opts os @ rest)) (length pre + length (enc_opt opt))
          (int (length (enc_opts (opt # os))) + extra - int (length (enc_opt opt))) (apply_opt opt st)"
    using Cons.prems assms(2) by (intro tcp_options_step) (auto simp: enc_opts_def)
  also have "\<dots> = tcp_options_loop ((pre @ enc_opt opt) @ enc_opts os @ rest) (length (pre @ enc_opt opt))
          (int (length (enc_opts os)) + extra) (apply_opt opt st)"
    by (simp add: enc_opts_def)
  also have "\<dots> = tcp_options_loop ((pre @ enc_opt opt) @ enc_opts os @ rest)
      (length (pre @ enc_opt opt) + length (enc_opts os)) extra (fold apply_opt os (apply_opt opt st))"
    using Cons by (intro Cons.IH) simp
  finally show ?case by (simp add: enc_opts_def add.assoc)
qed (simp add: enc_opts_def)

text \<open>C20: \<open>tcp_options\<close> reads back every well-formed option area, one that options fill completely or that
  an end-of-options byte closes: the window scale is the last one given, cut at 14, and the flags say which of
  window scaling and selective acknowledgement were offered. No byte outside the packet is read.\<close>

theorem tcp_options_reads_back:
  assumes "\<forall>opt \<in> set os. wf_opt opt" "length hdrs = iph_ihl iph * 4 + 20"
    and "skb_data skb = hdrs @ enc_opts os @ eol @ payload" "eol = [] \<or> hd eol = TCPOPT_EOL"
    and "opt_length th = int (length (enc_opts os @ eol))" "enc_opts os @ eol \<noteq> []"
  shows "tcp_options skb iph th st = Some (fold apply_opt os (st\<lparr>td_scale := 0, tflags := 0\<rparr>))"
proof -
  let ?st = "fold apply_opt os (st\<lparr>td_scale := 0, tflags := 0\<rparr>)"
  have n: "opt_length th = int (length (enc_opts os)) + int (length eol)" using assms(5) by simp
  have b: "skb_data skb = hdrs @ enc_opts os @ (eol @ payload)" using assms(3) by simp
  have "tcp_options_loop (skb_data skb) (length hdrs) (opt_length th) (st\<lparr>td_scale := 0, tflags := 0\<rparr>)
      = tcp_options_loop (skb_data skb) (length hdrs + length (enc_opts os)) (int (length eol)) ?st"
    unfolding b n by (rule tcp_options_run [OF assms(1)]) simp
  also have "\<dots> = Some ?st"
  proof (cases eol)
    case Nil
    then show ?thesis by (simp add: tcp_options_loop.simps)
  next
    case (Cons z zs)
    then have "peek (skb_data skb) (length hdrs + length (enc_opts os)) = Some 0"
      using assms(4) peek_append_0 [of "hdrs @ enc_opts os" 0 "zs @ payload"] by (simp add: b)
    with Cons show ?thesis by (subst tcp_options_loop.simps) simp
  qed
  moreover have "opt_length th \<noteq> 0" using assms(5,6) by (auto simp del: length_append)
  moreover have "\<not> int (skb_len skb) < int (iph_ihl iph * 4 + 20) + opt_length th"
    unfolding assms(2) [symmetric] n by (simp add: assms(3))
  ultimately show ?thesis unfolding tcp_options_def by (simp only: assms(2) if_False)
qed


subsection \<open>What the tracking data keeps\<close>

definition tcp_wf :: "ip_ct_tcp \<Rightarrow> bool" where
  "tcp_wf st \<longleftrightarrow> td_scale (fst (seen st)) \<le> 14 \<and> td_scale (snd (seen st)) \<le> 14 \<and> tstate st < sIV"

lemma tcp_wf_seen_at: "tcp_wf st \<Longrightarrow> td_scale (seen_at st d) \<le> 14"
  by (simp add: tcp_wf_def seen_at_def)

lemma tcp_wf_set_seen:
  "tcp_wf (set_seen st d s r) \<longleftrightarrow> td_scale s \<le> 14 \<and> td_scale r \<le> 14 \<and> tstate st < sIV"
  by (auto simp: tcp_wf_def set_seen_def)

definition opt_frame :: "ip_ct_tcp_state \<Rightarrow> ip_ct_tcp_state \<Rightarrow> bool" where
  "opt_frame st st' \<longleftrightarrow> (td_scale st \<le> 14 \<longrightarrow> td_scale st' \<le> 14) \<and> td_end st' = td_end st
     \<and> td_maxwin st' = td_maxwin st \<and> loose st' = loose st"

lemma opt_frame_updates:
  "opt_frame st st"
  "opt_frame (st\<lparr>tflags := f\<rparr>) st' \<longleftrightarrow> opt_frame st st'"
  "opt_frame (st\<lparr>td_scale := v, tflags := f\<rparr>) st' \<Longrightarrow> v \<le> 14 \<Longrightarrow> opt_frame st st'"
  by (auto simp: opt_frame_def)

lemma tcp_options_loop_frame: "tcp_options_loop b p len st = Some st' \<Longrightarrow> opt_frame st st'"
proof (induction b p len st rule: tcp_options_loop.induct)
  case (1 b p len st)
  have scale: "opt_frame (st\<lparr>td_scale := (if 14 < v then 14 else v), tflags := f\<rparr>) st' \<Longrightarrow> opt_frame st st'" for v f
    by (auto simp: opt_frame_def split: if_splits)
  note u = "1.prems" [unfolded tcp_options_loop.simps [of b p len st]]
  show ?case
  proof (cases "len \<le> 0 \<or> peek b p = None \<or> peek b p = Some 0")
    case True
    then show ?thesis using u by (auto simp: opt_frame_updates(1) split: if_splits)
  next
    case False
    then obtain opcode where o: "\<not> len \<le> 0" "peek b p = Some opcode" "opcode \<noteq> 0" by auto
    show ?thesis
    proof (cases "opcode = 1")
      case True
      then show ?thesis using u o "1.IH"(1) [OF o True] by simp
    next
      case False
      then obtain opsize where z: "peek b (Suc p) = Some opsize" using u o by (auto split: option.splits)
      note IH = "1.IH"(2-5) [OF o False z]
      consider "opsize < 2" | "\<not> opsize < 2" "len < uint opsize" | "\<not> opsize < 2" "\<not> len < uint opsize" by blast
      then show ?thesis
      proof cases
        case 3
        consider "opcode = 4 \<and> opsize = 2" | "\<not> (opcode = 4 \<and> opsize = 2)" "opcode = 3 \<and> opsize = 3"
          | "\<not> (opcode = 4 \<and> opsize = 2)" "\<not> (opcode = 3 \<and> opsize = 3)" by blast
        then show ?thesis
        proof cases
          case 1
          then show ?thesis using u o z 3 IH(2) [OF 3 1] by (simp add: opt_frame_updates(2))
        next
          case 2
          then obtain v where "peek b (Suc (Suc p)) = Some v" using u o z 3 by (auto split: option.splits)
          with 2 show ?thesis using u o z 3 scale [OF IH(3) [OF 3 2]] by simp
        next
          case 3
          with \<open>\<not> opsize < 2\<close> \<open>\<not> len < uint opsize\<close> show ?thesis using u o False z IH(4) by auto
        qed
      qed (use u o False z IH(1) in \<open>auto simp: opt_frame_updates(1)\<close>)
    qed
  qed
qed

lemma tcp_options_frame:
  assumes "tcp_options skb iph th st = Some st'" "td_scale st \<le> 14"
  shows "td_scale st' \<le> 14" "td_end st' = td_end st" "td_maxwin st' = td_maxwin st" "loose st' = loose st"
  using assms
  by (auto simp: tcp_options_def opt_frame_def split: if_splits dest!: tcp_options_loop_frame)

lemma tcp_win_init_frame:
  assumes "tcp_win_init st d skb iph th e win = Some (s, r)" "tcp_wf st"
  shows "td_scale s \<le> 14" "td_scale r \<le> 14" "td_end r = td_end (seen_at st (other_dir d))"
    "td_end s = td_end (seen_at st d) \<or> td_end s = e \<and> (td_end (seen_at st d) = 0 \<or> after e (td_end (seen_at st d)))"
proof -
  have o: "td_scale s' \<le> 14 \<and> td_end s' = e"
    if "tcp_options skb iph th ((seen_at st d')\<lparr>td_end := e, td_maxend := e, td_maxwin := w\<rparr>) = Some s'" for d' w s'
    using tcp_options_frame [OF that] tcp_wf_seen_at [OF assms(2), of d'] by simp
  note w = tcp_wf_seen_at [OF assms(2)]
  show "td_scale s \<le> 14" "td_scale r \<le> 14" "td_end r = td_end (seen_at st (other_dir d))"
    "td_end s = td_end (seen_at st d) \<or> td_end s = e \<and> (td_end (seen_at st d) = 0 \<or> after e (td_end (seen_at st d)))"
    using assms(1) w by (auto simp: tcp_win_init_def Let_def split: if_splits option.splits dest!: o)
qed

lemma tcp_win_update_frame:
  assumes "td_scale s \<le> 14" "td_scale r \<le> 14" "tstate st < sIV"
  shows "tcp_wf (tcp_win_update st d idx th s r seq e ack sack win)"
    "tstate (tcp_win_update st d idx th s r seq e ack sack win) = tstate st"
    "td_end (seen_at (tcp_win_update st d idx th s r seq e ack sack win) d) = (if after e (td_end s) then e else td_end s)"
    "td_end (seen_at (tcp_win_update st d idx th s r seq e ack sack win) (other_dir d)) = td_end r"
  using assms unfolding tcp_win_update_def Let_def
  by (simp_all add: tcp_wf_set_seen win_sender_def win_receiver_def) (simp_all add: set_seen_def win_retrans_def)

lemma scaled_window_exact:
  assumes "k \<le> (14 :: u8)"
  shows "uint (push_bit (unat k) (ucast (w :: u16) :: u32)) = uint w * 2 ^ unat k"
proof -
  have "unat k \<le> 14" using assms by (simp add: word_le_nat_alt)
  then have "(2 :: int) ^ unat k \<le> 2 ^ 14" by (intro power_increasing) simp_all
  moreover have "uint w < 2 ^ 16" using unsigned_less [of w, where ?'a = int] by simp
  ultimately have "uint w * 2 ^ unat k < 2 ^ 16 * 2 ^ 14"
    by (intro mult_less_le_imp_less) simp_all
  then have "take_bit 32 (uint w * 2 ^ unat k) = uint w * 2 ^ unat k"
    by (intro take_bit_int_eq_self) simp_all
  moreover have "uint (ucast w :: u32) = uint w"
    using \<open>uint w < 2 ^ 16\<close> by (simp add: unsigned_ucast_eq take_bit_int_eq_self)
  moreover have "uint (push_bit (unat k) (ucast w :: u32)) = take_bit 32 (push_bit (unat k) (uint (ucast w :: u32)))"
    using unsigned_push_bit_eq [of "unat k" "ucast w :: u32", where ?'a = int] by simp
  ultimately show ?thesis by (simp only: push_bit_eq_mult)
qed

lemma tcp_in_window_cases:
  fixes st d idx skb iph th
  defines "seq0 \<equiv> ntohl (tcph_seq th)" and "win \<equiv> ucast (ntohs (tcph_window th)) :: u32"
  defines "e0 \<equiv> segment_seq_plus_len seq0 (skb_len skb) iph th"
  assumes "tcp_in_window cfg st d idx skb iph th = Some (res, st')"
  obtains s r seq e ack sack where "tcp_win_init st d skb iph th e0 win = Some (s, r)" "tcp_win_seqs (tstate st) s th seq0 e0 = (seq, e)"
    "(res, st') = (1, tcp_win_update st d idx th s r seq e ack sack win) \<or> (res, st') = (be_liberal cfg, set_seen st d s r)"
proof -
  obtain sack0 where k: "(if tflags (seen_at st (other_dir d)) AND IP_CT_TCP_FLAG_SACK_PERM \<noteq> 0
      then tcp_sack skb iph th (ntohl (tcph_ack_seq th)) else Some (ntohl (tcph_ack_seq th))) = Some sack0"
    using assms(4) by (auto simp: tcp_in_window_def Let_def split: option.splits)
  obtain s r where i: "tcp_win_init st d skb iph th e0 win = Some (s, r)"
    using assms(4) unfolding tcp_in_window_def Let_def k
    by (auto simp: e0_def seq0_def win_def split: option.splits)
  obtain ack sack where a: "tcp_win_acks r th (ntohl (tcph_ack_seq th)) sack0 = (ack, sack)" by fastforce
  obtain seq e where q: "tcp_win_seqs (tstate st) s th seq0 e0 = (seq, e)" by fastforce
  have "Some (res, st') = (if loose s \<noteq> 0 \<or> loose r \<noteq> 0 \<or> tcp_win_ok s r seq e ack sack
      then Some (1, tcp_win_update st d idx th s r seq e ack sack win) else Some (be_liberal cfg, set_seen st d s r))"
    unfolding assms(4) [symmetric] tcp_in_window_def Let_def k using i a q
    by (simp add: e0_def seq0_def win_def)
  then have "(res, st') = (1, tcp_win_update st d idx th s r seq e ack sack win)
      \<or> (res, st') = (be_liberal cfg, set_seen st d s r)"
    by (simp split: if_splits)
  from that [OF i q this] show thesis .
qed

lemma tcp_in_window_wf:
  assumes "tcp_wf st" "tcp_in_window cfg st d idx skb iph th = Some (res, st')"
  shows "tcp_wf st'" "tstate st' = tstate st"
proof -
  obtain s r e0 win seq e ack sack where i: "tcp_win_init st d skb iph th e0 win = Some (s, r)"
    and "(res, st') = (1, tcp_win_update st d idx th s r seq e ack sack win) \<or> (res, st') = (be_liberal cfg, set_seen st d s r)"
    by (rule tcp_in_window_cases [OF assms(2)])
  then have st': "st' = tcp_win_update st d idx th s r seq e ack sack win \<or> st' = set_seen st d s r" by auto
  note f = tcp_win_init_frame [OF i assms(1)]
  have t: "tstate st < sIV" using assms(1) by (simp add: tcp_wf_def)
  show "tcp_wf st'" using st' f(1,2) t tcp_win_update_frame(1) by (auto simp: tcp_wf_set_seen)
  show "tstate st' = tstate st" using st' tcp_win_update_frame(2) [OF f(1,2) t] by auto
qed

text \<open>C19: Window tracking keeps its data well formed whatever the packet: the scale factors stay at most
  14, so that shifting a window never loses a bit; the state is left to the caller; the receiver's end stays and
  the sender's end only moves forward.\<close>

theorem tcp_in_window_keeps:
  assumes "tcp_wf st" "tcp_in_window cfg st d idx skb iph th = Some (res, st')"
  shows "tcp_wf st' \<and> tstate st' = tstate st
    \<and> td_end (seen_at st' (other_dir d)) = td_end (seen_at st (other_dir d))
    \<and> (td_end (seen_at st d) \<noteq> 0 \<longrightarrow> td_end (seen_at st' d) = td_end (seen_at st d)
         \<or> after (td_end (seen_at st' d)) (td_end (seen_at st d)))
    \<and> uint (push_bit (unat (td_scale (seen_at st' d))) (ucast (w :: u16) :: u32))
       = uint w * 2 ^ unat (td_scale (seen_at st' d))"
proof -
  define seq0 where "seq0 = ntohl (tcph_seq th)"
  define win where "win = (ucast (ntohs (tcph_window th)) :: u32)"
  define e0 where "e0 = segment_seq_plus_len seq0 (skb_len skb) iph th"
  note cases = tcp_in_window_cases [OF assms(2), folded seq0_def win_def, folded e0_def]
  obtain s r seq e ack sack where i: "tcp_win_init st d skb iph th e0 win = Some (s, r)"
    and se: "tcp_win_seqs (tstate st) s th seq0 e0 = (seq, e)"
    and "(res, st') = (1, tcp_win_update st d idx th s r seq e ack sack win) \<or> (res, st') = (be_liberal cfg, set_seen st d s r)"
    by (rule cases)
  then have st': "st' = tcp_win_update st d idx th s r seq e ack sack win \<or> st' = set_seen st d s r" by auto
  note f = tcp_win_init_frame [OF i assms(1)]
  have t: "tstate st < sIV" using assms(1) by (simp add: tcp_wf_def)
  have e: "e = td_end s \<or> e = e0" using se by (auto simp: tcp_win_seqs_def split: if_splits)
  note wf' = tcp_in_window_wf [OF assms]
  have ends: "td_end (seen_at st' d) = td_end s \<or> td_end (seen_at st' d) = e0 \<and> after e0 (td_end s)"
    using st' e tcp_win_update_frame(3) [OF f(1,2) t] by (auto split: if_splits)
  then have "td_end (seen_at st d) \<noteq> 0 \<longrightarrow> td_end (seen_at st' d) = td_end (seen_at st d)
         \<or> after (td_end (seen_at st' d)) (td_end (seen_at st d))"
    using f(4) by auto
  moreover have "td_end (seen_at st' (other_dir d)) = td_end r"
    using st' tcp_win_update_frame(4) [OF f(1,2) t] by auto
  ultimately show ?thesis
    using wf' f(3) scaled_window_exact [OF tcp_wf_seen_at [OF wf'(1)]] by simp
qed


subsection \<open>Examples\<close>

text \<open>An established connection of \<open>lan_host\<close>: 100 bytes sent up to 1101 and 201 received, and the next ten bytes of
  data, without and with options in the header.\<close>

definition sample_tcp :: ip_ct_tcp where
  "sample_tcp = \<lparr>seen = (\<lparr>td_end = 1101, td_maxend = 9101, td_maxwin = 8192, td_scale = 0, loose = 0, tflags = 0\<rparr>,
       \<lparr>td_end = 201, td_maxend = 8393, td_maxwin = 8000, td_scale = 0, loose = 0, tflags = 0\<rparr>),
     tstate = sES, last_dir = 0, retrans = 0, last_index = TCP_ACK_SET, last_seq = 0, last_ack = 0, last_end = 0\<rparr>"

definition data_hdr :: "u8 \<Rightarrow> u8 \<Rightarrow> u8 list" where
  "data_hdr doff fl = [0x30, 0x39, 0, 80, 0, 0, 4, 0x4d, 0, 0, 0, 201, push_bit 4 doff, fl, 0x20, 0, 0, 0, 0, 0]"

definition data_pkt :: sk_buff where
  "data_pkt = ip_pkt 6 lan_host web_host (data_hdr 5 0x18 @ replicate 10 65)"


definition sample_opts :: "tcp_opt list" where
  "sample_opts = [Opt 2 [5, 180], Nop, Opt 3 [15], Opt 4 [], Nop, Nop]"

theorem tcp_options_reads_back_witness:
  "map_option (\<lambda>st. (td_scale st, tflags st))
     (tcp_options (pkt_skb (take 20 (skb_data data_pkt) @ data_hdr 8 0x02 @ enc_opts sample_opts))
        (skb_data data_pkt) (data_hdr 8 0x02) (seen_at sample_tcp 0)) = Some (14, 3)"
proof -
  have "\<forall>opt \<in> set sample_opts. wf_opt opt"
    "length (take 20 (skb_data data_pkt) @ data_hdr 8 0x02) = iph_ihl (skb_data data_pkt) * 4 + 20"
    "skb_data (pkt_skb (take 20 (skb_data data_pkt) @ data_hdr 8 0x02 @ enc_opts sample_opts))
       = (take 20 (skb_data data_pkt) @ data_hdr 8 0x02) @ enc_opts sample_opts @ [] @ []"
    "opt_length (data_hdr 8 0x02) = int (length (enc_opts sample_opts @ []))" "enc_opts sample_opts @ [] \<noteq> []"
    by code_simp+
  from tcp_options_reads_back [OF this(1-3) _ this(4,5), of "seen_at sample_tcp 0"]
  have "tcp_options (pkt_skb (take 20 (skb_data data_pkt) @ data_hdr 8 0x02 @ enc_opts sample_opts))
        (skb_data data_pkt) (data_hdr 8 0x02) (seen_at sample_tcp 0)
      = Some (fold apply_opt sample_opts ((seen_at sample_tcp 0)\<lparr>td_scale := 0, tflags := 0\<rparr>))" by simp
  moreover have "td_scale (fold apply_opt sample_opts ((seen_at sample_tcp 0)\<lparr>td_scale := 0, tflags := 0\<rparr>)) = 14"
    "tflags (fold apply_opt sample_opts ((seen_at sample_tcp 0)\<lparr>td_scale := 0, tflags := 0\<rparr>)) = 3"
    by code_simp+
  ultimately show ?thesis by simp
qed

theorem tcp_in_window_keeps_witness:
  "\<exists>st'. tcp_in_window tcp_defaults sample_tcp 0 TCP_ACK_SET data_pkt (skb_data data_pkt) (data_hdr 5 0x18) = Some (1, st')
    \<and> tcp_wf st' \<and> after (td_end (seen_at st' 0)) (td_end (seen_at sample_tcp 0))"
proof -
  have "tcp_in_window tcp_defaults sample_tcp 0 TCP_ACK_SET data_pkt (skb_data data_pkt) (data_hdr 5 0x18) \<noteq> None"
    "fst (the (tcp_in_window tcp_defaults sample_tcp 0 TCP_ACK_SET data_pkt (skb_data data_pkt) (data_hdr 5 0x18))) = 1"
    "after (td_end (seen_at (snd (the (tcp_in_window tcp_defaults sample_tcp 0 TCP_ACK_SET data_pkt (skb_data data_pkt)
       (data_hdr 5 0x18)))) 0)) (td_end (seen_at sample_tcp 0))"
    by code_simp+
  then obtain st' where st': "tcp_in_window tcp_defaults sample_tcp 0 TCP_ACK_SET data_pkt (skb_data data_pkt) (data_hdr 5 0x18) = Some (1, st')"
    "after (td_end (seen_at st' 0)) (td_end (seen_at sample_tcp 0))" by auto
  have "tcp_wf sample_tcp" by code_simp
  from tcp_in_window_keeps [OF this st'(1)] st' show ?thesis by blast
qed

definition partial_option_syn :: sk_buff where
  "partial_option_syn = ip_pkt 6 lan_host web_host (data_hdr 6 0x02 @ [5, 255, 5, 255])"


end
