(* ===== verification/Ct_Core.thy ===== *)
theory Ct_Core
  imports Ct_Tcp_Window "HOL-Library.Monad_Syntax"
begin

section \<open>The connection table\<close>

text \<open>
  The state of \<^verbatim>\<open>net/ipv4/netfilter/ip_conntrack_core.c\<close> and the operations on it below the packet hook:
  expectations, reference counts and destruction, the hash table, timers, allocation with early drop, and the
  walk that removes connections. The NAT part of a connection (\<open>bysource\<close>, the sequence offsets) is in the
  same record, as in \<^verbatim>\<open>include/linux/netfilter_ipv4/ip_conntrack.h\<close>.

  Connections, expectations and helpers are objects in heaps, maps from addresses; the lists hold
  addresses, a hash chain holds an address and the direction of the tuple that is linked in. A use of an address
  with no object behind it, a failed \<open>BUG_ON\<close> and the unlinking of something that is not linked are the value
  \<open>None\<close>, so that a result \<open>Some\<close> says that no freed object was used. \<open>kmem_cache_alloc\<close> hands out a new
  address each time (\<open>brk\<close>). The code runs under \<open>ip_conntrack_lock\<close> with bottom halves off, each operation here is
  one such section. Statistics and events are left out.

  The environment \<open>ct_env\<close> holds what an operation reads and does not own: the clock, the outcome of the
  allocation, the random number for the hash, the tunables and the hooks of the hardware NAT module, which come from
  outside the tree: a function that says whether the module refuses to let a connection go.
\<close>

subsection \<open>Structures\<close>

record ip_conntrack_counter =
  packets :: u32
  bytes :: u32

record ip_nat_seq =
  correction_pos :: u32
  offset_before :: int
  offset_after :: int

record ip_conntrack =
  ct_use :: int
  status :: u32
  expires :: u32
  pending :: bool
  acct :: "ip_conntrack_counter \<times> ip_conntrack_counter"
  master :: "nat option"
  expecting :: u32
  ct_id :: u32
  helper :: "nat option"
  tcp :: ip_ct_tcp
  icmp_count :: int
  nat_seq :: "ip_nat_seq \<times> ip_nat_seq"
  masq_index :: int
  ct_mark :: u32
  tuplehash :: "ip_conntrack_tuple \<times> ip_conntrack_tuple"

record ip_conntrack_expect =
  exp_tuple :: ip_conntrack_tuple
  exp_mask :: ip_conntrack_tuple
  exp_master :: nat
  exp_expires :: u32
  exp_pending :: bool
  exp_use :: int
  exp_id :: u32
  exp_flags :: u32
  exp_follows :: bool
  saved_proto :: u16
  exp_dir :: u8

record ip_conntrack_helper =
  help_name :: string
  max_expected :: u32
  help_timeout :: u32
  help_tuple :: ip_conntrack_tuple
  help_mask :: ip_conntrack_tuple

record ct_state =
  cts :: "nat \<rightharpoonup> ip_conntrack"
  exps :: "nat \<rightharpoonup> ip_conntrack_expect"
  hlps :: "nat \<rightharpoonup> ip_conntrack_helper"
  brk :: nat
  hash :: "u32 \<Rightarrow> (nat \<times> u8) list"
  unconfirmed :: "nat list"
  expect_list :: "nat list"
  helpers :: "nat list"
  bysource :: "u32 \<Rightarrow> nat list"
  nat_loaded :: bool
  ct_count :: int
  next_id :: u32
  expect_next_id :: u32
  htable_size :: u32
  nat_htable_size :: u32
  hash_rnd :: u32
  rnd_initted :: bool
  conntrack_max :: int
  nat_tcp_port :: u16
  nat_udp_port :: u16
  nat_icmp_id :: u16

record ct_env =
  jiffies :: u32
  alloc_fails :: bool
  random :: u32
  shnat_refuses :: "ip_conntrack \<Rightarrow> bool"
  tcp_cfg :: tcp_sysctl

abbreviation (input) IPS_EXPECTED_BIT :: nat where "IPS_EXPECTED_BIT \<equiv> 0"
abbreviation (input) IPS_SEEN_REPLY_BIT :: nat where "IPS_SEEN_REPLY_BIT \<equiv> 1"
abbreviation (input) IPS_ASSURED_BIT :: nat where "IPS_ASSURED_BIT \<equiv> 2"
abbreviation (input) IPS_CONFIRMED_BIT :: nat where "IPS_CONFIRMED_BIT \<equiv> 3"
abbreviation (input) IPS_SRC_NAT_BIT :: nat where "IPS_SRC_NAT_BIT \<equiv> 4"
abbreviation (input) IPS_DST_NAT_BIT :: nat where "IPS_DST_NAT_BIT \<equiv> 5"
abbreviation (input) IPS_SEQ_ADJUST_BIT :: nat where "IPS_SEQ_ADJUST_BIT \<equiv> 6"
abbreviation (input) IPS_SRC_NAT_DONE_BIT :: nat where "IPS_SRC_NAT_DONE_BIT \<equiv> 7"
abbreviation (input) IPS_DST_NAT_DONE_BIT :: nat where "IPS_DST_NAT_DONE_BIT \<equiv> 8"
abbreviation (input) IPS_DYING_BIT :: nat where "IPS_DYING_BIT \<equiv> 9"
abbreviation (input) IPS_NAT_MASK :: u32 where "IPS_NAT_MASK \<equiv> 0x30"
abbreviation (input) IPS_NAT_DONE_MASK :: u32 where "IPS_NAT_DONE_MASK \<equiv> 0x180"
abbreviation (input) IP_CT_EXPECT_PERMANENT :: u32 where "IP_CT_EXPECT_PERMANENT \<equiv> 1"

abbreviation (input) IP_CT_ESTABLISHED :: nat where "IP_CT_ESTABLISHED \<equiv> 0"
abbreviation (input) IP_CT_RELATED :: nat where "IP_CT_RELATED \<equiv> 1"
abbreviation (input) IP_CT_NEW :: nat where "IP_CT_NEW \<equiv> 2"
abbreviation (input) IP_CT_IS_REPLY :: nat where "IP_CT_IS_REPLY \<equiv> 3"

definition CTINFO2DIR :: "nat \<Rightarrow> u8" where
  "CTINFO2DIR ctinfo = (if IP_CT_IS_REPLY \<le> ctinfo then IP_CT_DIR_REPLY else IP_CT_DIR_ORIGINAL)"

definition test_status :: "nat \<Rightarrow> ip_conntrack \<Rightarrow> bool" where
  "test_status n ct = bit (status ct) n"

definition set_status :: "nat \<Rightarrow> ip_conntrack \<Rightarrow> ip_conntrack" where
  "set_status n ct = ct\<lparr>status := set_bit n (status ct)\<rparr>"

definition is_confirmed :: "ip_conntrack \<Rightarrow> bool" where
  "is_confirmed = test_status IPS_CONFIRMED_BIT"

definition tuple_at :: "ip_conntrack \<Rightarrow> u8 \<Rightarrow> ip_conntrack_tuple" where
  "tuple_at ct d = (if d = IP_CT_DIR_ORIGINAL then fst (tuplehash ct) else snd (tuplehash ct))"

definition hash_conntrack :: "ct_state \<Rightarrow> ip_conntrack_tuple \<Rightarrow> u32" where
  "hash_conntrack s t = hash_conntrack' t (htable_size s) (hash_rnd s)"

lemma option_bind_case [code_unfold]: "Option.bind m f = (case m of None \<Rightarrow> None | Some x \<Rightarrow> f x)"
  by (cases m) simp_all

text \<open>Writing through a pointer to a connection or to an expectation.\<close>

definition upd_ct :: "nat \<Rightarrow> (ip_conntrack \<Rightarrow> ip_conntrack) \<Rightarrow> ct_state \<Rightarrow> ct_state option" where
  "upd_ct c f s = (case cts s c of None \<Rightarrow> None | Some ct \<Rightarrow> Some (s\<lparr>cts := (cts s)(c \<mapsto> f ct)\<rparr>))"

definition upd_exp :: "nat \<Rightarrow> (ip_conntrack_expect \<Rightarrow> ip_conntrack_expect) \<Rightarrow> ct_state \<Rightarrow> ct_state option" where
  "upd_exp e f s = (case exps s e of None \<Rightarrow> None | Some x \<Rightarrow> Some (s\<lparr>exps := (exps s)(e \<mapsto> f x)\<rparr>))"

text \<open>\<open>del_timer\<close> says whether the timer was pending, and stops it.\<close>

definition del_timer :: "nat \<Rightarrow> ct_state \<Rightarrow> (bool \<times> ct_state) option" where
  "del_timer c s = do {
     ct \<leftarrow> cts s c;
     Some (pending ct, s\<lparr>cts := (cts s)(c \<mapsto> ct\<lparr>pending := False\<rparr>)\<rparr>)}"

definition del_timer_exp :: "nat \<Rightarrow> ct_state \<Rightarrow> (bool \<times> ct_state) option" where
  "del_timer_exp e s = do {
     x \<leftarrow> exps s e;
     Some (exp_pending x, s\<lparr>exps := (exps s)(e \<mapsto> x\<lparr>exp_pending := False\<rparr>)\<rparr>)}"

subsection \<open>Expectations\<close>

definition ip_conntrack_expect_put :: "nat \<Rightarrow> ct_state \<Rightarrow> ct_state option" where
  "ip_conntrack_expect_put e s = do {
     x \<leftarrow> exps s e;
     if exp_use x - 1 = 0 then Some (s\<lparr>exps := (exps s)(e := None)\<rparr>)
     else Some (s\<lparr>exps := (exps s)(e \<mapsto> x\<lparr>exp_use := exp_use x - 1\<rparr>)\<rparr>)}"

definition ip_ct_unlink_expect :: "nat \<Rightarrow> ct_state \<Rightarrow> ct_state option" where
  "ip_ct_unlink_expect e s = do {
     x \<leftarrow> exps s e;
     if e \<notin> set (expect_list s) then None
     else do {
       s1 \<leftarrow> upd_ct (exp_master x) (\<lambda>ct. ct\<lparr>expecting := expecting ct - 1\<rparr>)
              (s\<lparr>expect_list := remove1 e (expect_list s)\<rparr>);
       ip_conntrack_expect_put e s1}}"

definition expectation_timed_out :: "nat \<Rightarrow> ct_state \<Rightarrow> ct_state option" where
  "expectation_timed_out e s = do {
     s1 \<leftarrow> ip_ct_unlink_expect e s;
     ip_conntrack_expect_put e s1}"

fun expect_scan :: "ip_conntrack_tuple \<Rightarrow> nat list \<Rightarrow> ct_state \<Rightarrow> (nat option \<times> ct_state) option" where
  "expect_scan t [] s = Some (None, s)"
| "expect_scan t (e # es) s = do {
     x \<leftarrow> exps s e;
     if ip_ct_tuple_mask_cmp t (exp_tuple x) (exp_mask x)
     then Some (Some e, s\<lparr>exps := (exps s)(e \<mapsto> x\<lparr>exp_use := exp_use x + 1\<rparr>)\<rparr>)
     else expect_scan t es s}"

definition ip_conntrack_expect_find :: "ip_conntrack_tuple \<Rightarrow> ct_state \<Rightarrow> (nat option \<times> ct_state) option" where
  "ip_conntrack_expect_find t s = expect_scan t (expect_list s) s"

fun find_expectation_in :: "ip_conntrack_tuple \<Rightarrow> nat list \<Rightarrow> ct_state \<Rightarrow> (nat option \<times> ct_state) option" where
  "find_expectation_in t [] s = Some (None, s)"
| "find_expectation_in t (e # es) s = do {
     x \<leftarrow> exps s e;
     if \<not> ip_ct_tuple_mask_cmp t (exp_tuple x) (exp_mask x) then find_expectation_in t es s
     else do {
       m \<leftarrow> cts s (exp_master x);
       if \<not> is_confirmed m then find_expectation_in t es s
       else if exp_flags x AND IP_CT_EXPECT_PERMANENT \<noteq> 0
       then Some (Some e, s\<lparr>exps := (exps s)(e \<mapsto> x\<lparr>exp_use := exp_use x + 1\<rparr>)\<rparr>)
       else do {
         (was, s1) \<leftarrow> del_timer_exp e s;
         if was then do { s2 \<leftarrow> ip_ct_unlink_expect e s1; Some (Some e, s2) }
         else find_expectation_in t es s1}}}"

definition find_expectation :: "ip_conntrack_tuple \<Rightarrow> ct_state \<Rightarrow> (nat option \<times> ct_state) option" where
  "find_expectation t s = find_expectation_in t (expect_list s) s"

text \<open>\<open>del_timer(&i->timeout)\<close> and, when it was pending, the end of the expectation.\<close>

definition drop_expect :: "nat \<Rightarrow> ct_state \<Rightarrow> (bool \<times> ct_state) option" where
  "drop_expect e s = do {
     (was, s1) \<leftarrow> del_timer_exp e s;
     if was then do {
       s2 \<leftarrow> ip_ct_unlink_expect e s1;
       s3 \<leftarrow> ip_conntrack_expect_put e s2;
       Some (True, s3)}
     else Some (False, s1)}"

text \<open>\<open>list_for_each_entry_safe\<close>: the body unlinks at most the entry it is at.\<close>

fun remove_expectations_in :: "nat \<Rightarrow> nat list \<Rightarrow> ct_state \<Rightarrow> ct_state option" where
  "remove_expectations_in c [] s = Some s"
| "remove_expectations_in c (e # es) s = do {
     x \<leftarrow> exps s e;
     if exp_master x \<noteq> c then remove_expectations_in c es s
     else do {
       (was, s1) \<leftarrow> drop_expect e s;
       remove_expectations_in c es s1}}"

definition ip_ct_remove_expectations :: "nat \<Rightarrow> ct_state \<Rightarrow> ct_state option" where
  "ip_ct_remove_expectations c s = do {
     ct \<leftarrow> cts s c;
     if expecting ct = 0 then Some s
     else remove_expectations_in c (expect_list s) s}"


subsection \<open>The hash table\<close>

definition ip_conntrack_get :: "sk_buff \<Rightarrow> nat option \<times> nat" where
  "ip_conntrack_get skb = (nfct skb, nfctinfo skb)"

text \<open>\<open>LIST_DELETE\<close> of one of the two nodes of a connection, from the chain its tuple hashes to.\<close>

definition unlink_node :: "nat \<times> u8 \<Rightarrow> u32 \<Rightarrow> ct_state \<Rightarrow> ct_state option" where
  "unlink_node n h s =
     (if n \<in> set (hash s h) then Some (s\<lparr>hash := (hash s)(h := remove1 n (hash s h))\<rparr>) else None)"

definition clean_from_lists :: "nat \<Rightarrow> ct_state \<Rightarrow> ct_state option" where
  "clean_from_lists c s = do {
     ct \<leftarrow> cts s c;
     s1 \<leftarrow> unlink_node (c, IP_CT_DIR_ORIGINAL) (hash_conntrack s (tuple_at ct IP_CT_DIR_ORIGINAL)) s;
     s2 \<leftarrow> unlink_node (c, IP_CT_DIR_REPLY) (hash_conntrack s (tuple_at ct IP_CT_DIR_REPLY)) s1;
     ip_ct_remove_expectations c s2}"

text \<open>\<open>conntrack_tuple_cmp\<close> at the nodes of a chain; \<open>None\<close> as the ignored connection is the null pointer.\<close>

definition conntrack_tuple_cmp :: "ct_state \<Rightarrow> nat \<times> u8 \<Rightarrow> ip_conntrack_tuple \<Rightarrow> nat option \<Rightarrow> bool option" where
  "conntrack_tuple_cmp s n t ignored =
     (case cts s (fst n) of
        None \<Rightarrow> None
      | Some ct \<Rightarrow> Some (Some (fst n) \<noteq> ignored \<and> ip_ct_tuple_equal t (tuple_at ct (snd n))))"

fun chain_find :: "ct_state \<Rightarrow> (nat \<times> u8) list \<Rightarrow> ip_conntrack_tuple \<Rightarrow> nat option \<Rightarrow> (nat \<times> u8) option option" where
  "chain_find s [] t ignored = Some None"
| "chain_find s (n # ns) t ignored = do {
     hit \<leftarrow> conntrack_tuple_cmp s n t ignored;
     if hit then Some (Some n) else chain_find s ns t ignored}"

definition ip_conntrack_find :: "ip_conntrack_tuple \<Rightarrow> nat option \<Rightarrow> ct_state \<Rightarrow> (nat \<times> u8) option option" where
  "ip_conntrack_find t ignored s = chain_find s (hash s (hash_conntrack s t)) t ignored"

definition nf_conntrack_get :: "nat \<Rightarrow> ct_state \<Rightarrow> ct_state option" where
  "nf_conntrack_get c = upd_ct c (\<lambda>ct. ct\<lparr>ct_use := ct_use ct + 1\<rparr>)"

definition ip_conntrack_find_get :: "ip_conntrack_tuple \<Rightarrow> nat option \<Rightarrow> ct_state \<Rightarrow> ((nat \<times> u8) option \<times> ct_state) option" where
  "ip_conntrack_find_get t ignored s = do {
     h \<leftarrow> ip_conntrack_find t ignored s;
     case h of
       None \<Rightarrow> Some (None, s)
     | Some n \<Rightarrow> do { s1 \<leftarrow> nf_conntrack_get (fst n) s; Some (Some n, s1) }}"

definition ip_conntrack_tuple_taken :: "ip_conntrack_tuple \<Rightarrow> nat option \<Rightarrow> ct_state \<Rightarrow> bool option" where
  "ip_conntrack_tuple_taken t ignored s = do {
     h \<leftarrow> ip_conntrack_find t ignored s;
     Some (h \<noteq> None)}"

definition hash_insert :: "nat \<Rightarrow> u32 \<Rightarrow> u32 \<Rightarrow> ct_state \<Rightarrow> ct_state option" where
  "hash_insert c h repl_h s = do {
     s1 \<leftarrow> upd_ct c (\<lambda>ct. ct\<lparr>ct_id := next_id s + 1\<rparr>) (s\<lparr>next_id := next_id s + 1\<rparr>);
     let s2 = s1\<lparr>hash := (hash s1)(h := (c, IP_CT_DIR_ORIGINAL) # hash s1 h)\<rparr>;
     Some (s2\<lparr>hash := (hash s2)(repl_h := (c, IP_CT_DIR_REPLY) # hash s2 repl_h)\<rparr>)}"

definition ip_conntrack_hash_insert :: "nat \<Rightarrow> ct_state \<Rightarrow> ct_state option" where
  "ip_conntrack_hash_insert c s = do {
     ct \<leftarrow> cts s c;
     hash_insert c (hash_conntrack s (tuple_at ct IP_CT_DIR_ORIGINAL)) (hash_conntrack s (tuple_at ct IP_CT_DIR_REPLY)) s}"

text \<open>\<open>__ip_conntrack_confirm\<close> with the wrapper \<open>ip_conntrack_confirm\<close> of \<^verbatim>\<open>ip_conntrack_core.h\<close>.\<close>

definition confirm_new :: "ct_env \<Rightarrow> nat \<Rightarrow> nat \<Rightarrow> ct_state \<Rightarrow> (u32 \<times> ct_state) option" where
  "confirm_new env c ctinfo s =
     (if CTINFO2DIR ctinfo \<noteq> IP_CT_DIR_ORIGINAL then Some (NF_ACCEPT, s)
      else do {
        ct \<leftarrow> cts s c;
        let h = hash_conntrack s (tuple_at ct IP_CT_DIR_ORIGINAL);
        let repl_h = hash_conntrack s (tuple_at ct IP_CT_DIR_REPLY);
        orig \<leftarrow> chain_find s (hash s h) (tuple_at ct IP_CT_DIR_ORIGINAL) None;
        repl \<leftarrow> chain_find s (hash s repl_h) (tuple_at ct IP_CT_DIR_REPLY) None;
        if orig = None \<and> repl = None then
          (if c \<notin> set (unconfirmed s) then None
           else do {
             s1 \<leftarrow> hash_insert c h repl_h (s\<lparr>unconfirmed := remove1 c (unconfirmed s)\<rparr>);
             s2 \<leftarrow> upd_ct c (\<lambda>ct. set_status IPS_CONFIRMED_BIT
                     (ct\<lparr>expires := expires ct + jiffies env, pending := True, ct_use := ct_use ct + 1\<rparr>)) s1;
             Some (NF_ACCEPT, s2)})
        else Some (NF_DROP, s)})"

definition ip_conntrack_confirm :: "ct_env \<Rightarrow> sk_buff \<Rightarrow> ct_state \<Rightarrow> (u32 \<times> ct_state) option" where
  "ip_conntrack_confirm env skb s =
     (case nfct skb of
        None \<Rightarrow> Some (NF_ACCEPT, s)
      | Some c \<Rightarrow> do {
          ct \<leftarrow> cts s c;
          if is_confirmed ct then Some (NF_ACCEPT, s) else confirm_new env c (nfctinfo skb) s})"

subsection \<open>Reference counts and destruction\<close>

definition hash_by_src :: "ct_state \<Rightarrow> ip_conntrack_tuple \<Rightarrow> u32" where
  "hash_by_src s t = jhash_3words (src_ip t) (ucast (src_u t)) (ucast (protonum t)) 0 mod nat_htable_size s"

definition ip_nat_cleanup_conntrack :: "nat \<Rightarrow> ct_state \<Rightarrow> ct_state option" where
  "ip_nat_cleanup_conntrack c s = do {
     ct \<leftarrow> cts s c;
     if status ct AND IPS_NAT_DONE_MASK = 0 then Some s
     else let h = hash_by_src s (tuple_at ct IP_CT_DIR_ORIGINAL) in
       if c \<in> set (bysource s h) then Some (s\<lparr>bysource := (bysource s)(h := remove1 c (bysource s h))\<rparr>) else None}"

definition ip_conntrack_free :: "nat \<Rightarrow> ct_state \<Rightarrow> ct_state option" where
  "ip_conntrack_free c s = do {
     ct \<leftarrow> cts s c;
     Some (s\<lparr>ct_count := ct_count s - 1, cts := (cts s)(c := None)\<rparr>)}"

definition list_del_unconfirmed :: "nat \<Rightarrow> ct_state \<Rightarrow> ct_state option" where
  "list_del_unconfirmed c s =
     (if c \<in> set (unconfirmed s) then Some (s\<lparr>unconfirmed := remove1 c (unconfirmed s)\<rparr>) else None)"

text \<open>What \<open>destroy_conntrack\<close> does before it drops the reference to the master. None of the protocols of this
  configuration has a \<open>destroy\<close> function; \<open>ip_conntrack_destroyed\<close> is \<open>ip_nat_cleanup_conntrack\<close> once NAT is loaded.\<close>

definition destroy_start :: "nat \<Rightarrow> ct_state \<Rightarrow> (nat option \<times> ct_state) option" where
  "destroy_start c s = do {
     s1 \<leftarrow> upd_ct c (set_status IPS_DYING_BIT) s;
     s2 \<leftarrow> (if nat_loaded s1 then ip_nat_cleanup_conntrack c s1 else Some s1);
     s3 \<leftarrow> ip_ct_remove_expectations c s2;
     ct \<leftarrow> cts s3 c;
     s4 \<leftarrow> (if is_confirmed ct then Some s3 else list_del_unconfirmed c s3);
     Some (master ct, s4)}"

text \<open>\<open>nf_conntrack_put\<close>, which calls \<open>destroy_conntrack\<close> for the last reference; that in turn puts the master.
  \<open>None\<close> is also the value of a chain of masters that does not end.\<close>

partial_function (option) ip_conntrack_put :: "nat \<Rightarrow> ct_state \<Rightarrow> ct_state option" where
  "ip_conntrack_put c s = do {
     s1 \<leftarrow> upd_ct c (\<lambda>ct. ct\<lparr>ct_use := ct_use ct - 1\<rparr>) s;
     ct \<leftarrow> cts s1 c;
     if ct_use ct \<noteq> 0 then Some s1
     else do {
       (m, s2) \<leftarrow> destroy_start c s1;
       case m of
         None \<Rightarrow> ip_conntrack_free c s2
       | Some mc \<Rightarrow> do { s3 \<leftarrow> ip_conntrack_put mc s2; ip_conntrack_free c s3 }}}"

declare ip_conntrack_put.simps [code]

subsection \<open>Timers\<close>

text \<open>\<open>death_by_timeout\<close> is called with the timer stopped: by the timer itself or after \<open>del_timer\<close>.\<close>

definition death_by_timeout :: "ct_env \<Rightarrow> nat \<Rightarrow> ct_state \<Rightarrow> ct_state option" where
  "death_by_timeout env c s = do {
     ct \<leftarrow> cts s c;
     if shnat_refuses env ct then Some s
     else do {
       s1 \<leftarrow> clean_from_lists c s;
       ip_conntrack_put c s1}}"

text \<open>\<open>if (del_timer(&ct->timeout)) ct->timeout.function(ct)\<close>, as early drop, the TCP code and the removal walk have
  it, and the timer going off.\<close>

definition kill_now :: "ct_env \<Rightarrow> nat \<Rightarrow> ct_state \<Rightarrow> (bool \<times> ct_state) option" where
  "kill_now env c s = do {
     (was, s1) \<leftarrow> del_timer c s;
     if was then do { s2 \<leftarrow> death_by_timeout env c s1; Some (True, s2) } else Some (False, s1)}"

text \<open>\<open>__ip_ct_refresh_acct\<close>.\<close>

definition bump_acct :: "u8 \<Rightarrow> u8 list \<Rightarrow> ip_conntrack \<Rightarrow> ip_conntrack" where
  "bump_acct d iph ct =
     (let bump = (\<lambda>k. \<lparr>packets = packets k + 1, bytes = bytes k + ucast (ntohs (iph_tot_len iph))\<rparr>) in
      ct\<lparr>acct := (if d = IP_CT_DIR_ORIGINAL then (bump (fst (acct ct)), snd (acct ct))
                  else (fst (acct ct), bump (snd (acct ct))))\<rparr>)"

definition ip_ct_refresh_acct :: "ct_env \<Rightarrow> nat \<Rightarrow> nat \<Rightarrow> sk_buff \<Rightarrow> u32 \<Rightarrow> bool \<Rightarrow> ct_state \<Rightarrow> ct_state option" where
  "ip_ct_refresh_acct env c ctinfo skb extra_jiffies do_acct =
     upd_ct c (\<lambda>ct.
       let ct1 = (if \<not> is_confirmed ct then ct\<lparr>expires := extra_jiffies\<rparr>
                  else if pending ct then ct\<lparr>expires := jiffies env + extra_jiffies\<rparr> else ct)
       in if do_acct then bump_acct (CTINFO2DIR ctinfo) (skb_data skb) ct1 else ct1)"

subsection \<open>Allocation\<close>

definition unreplied :: "ct_state \<Rightarrow> nat \<times> u8 \<Rightarrow> bool option" where
  "unreplied s n = do { ct \<leftarrow> cts s (fst n); Some (\<not> test_status IPS_ASSURED_BIT ct) }"

fun first_unreplied :: "ct_state \<Rightarrow> (nat \<times> u8) list \<Rightarrow> (nat \<times> u8) option option" where
  "first_unreplied s [] = Some None"
| "first_unreplied s (n # ns) = do {
     u \<leftarrow> unreplied s n;
     if u then Some (Some n) else first_unreplied s ns}"

definition early_drop :: "ct_env \<Rightarrow> u32 \<Rightarrow> ct_state \<Rightarrow> (bool \<times> ct_state) option" where
  "early_drop env h s = do {
     n \<leftarrow> first_unreplied s (List.rev (hash s h));
     case n of
       None \<Rightarrow> Some (False, s)
     | Some (c, d) \<Rightarrow> do {
         s1 \<leftarrow> nf_conntrack_get c s;
         (dropped, s2) \<leftarrow> kill_now env c s1;
         s3 \<leftarrow> ip_conntrack_put c s2;
         Some (dropped, s3)}}"

definition blank_tcp :: ip_ct_tcp where
  "blank_tcp = (let z = \<lparr>td_end = 0, td_maxend = 0, td_maxwin = 0, td_scale = 0, loose = 0, tflags = 0\<rparr> in
     \<lparr>seen = (z, z), tstate = sNO, last_dir = 0, retrans = 0, last_index = TCP_SYN_SET, last_seq = 0, last_ack = 0,
      last_end = 0\<rparr>)"

definition blank_ct :: "ip_conntrack_tuple \<Rightarrow> ip_conntrack_tuple \<Rightarrow> ip_conntrack" where
  "blank_ct orig repl =
     (let z = \<lparr>packets = 0, bytes = 0\<rparr>; q = \<lparr>correction_pos = 0, offset_before = 0, offset_after = 0\<rparr> in
      \<lparr>ct_use = 1, status = 0, expires = 0, pending = False, acct = (z, z), master = None, expecting = 0, ct_id = 0,
       helper = None, tcp = blank_tcp, icmp_count = 0, nat_seq = (q, q), masq_index = 0, ct_mark = 0,
       tuplehash = (orig, repl)\<rparr>)"

text \<open>\<open>ERR_PTR(-ENOMEM)\<close> is \<open>None\<close> inside the result.\<close>

definition ip_conntrack_alloc :: "ct_env \<Rightarrow> ip_conntrack_tuple \<Rightarrow> ip_conntrack_tuple \<Rightarrow> ct_state
    \<Rightarrow> (nat option \<times> ct_state) option" where
  "ip_conntrack_alloc env orig repl s0 =
     (let s = (if rnd_initted s0 then s0 else s0\<lparr>hash_rnd := random env, rnd_initted := True\<rparr>) in do {
      (full, s1) \<leftarrow> (if conntrack_max s \<noteq> 0 \<and> conntrack_max s \<le> ct_count s
        then do { (dropped, s1) \<leftarrow> early_drop env (hash_conntrack s orig) s; Some (\<not> dropped, s1) }
        else Some (False, s));
      if full \<or> alloc_fails env then Some (None, s1)
      else Some (Some (brk s1),
        s1\<lparr>cts := (cts s1)(brk s1 \<mapsto> blank_ct orig repl), brk := brk s1 + 1, ct_count := ct_count s1 + 1\<rparr>)})"


subsection \<open>Helpers and expected connections\<close>

fun helper_find_in :: "ct_state \<Rightarrow> nat list \<Rightarrow> ip_conntrack_tuple \<Rightarrow> nat option option" where
  "helper_find_in s [] t = Some None"
| "helper_find_in s (h # hs) t = do {
     x \<leftarrow> hlps s h;
     if ip_ct_tuple_mask_cmp t (help_tuple x) (help_mask x) then Some (Some h) else helper_find_in s hs t}"

definition ip_conntrack_helper_find :: "ip_conntrack_tuple \<Rightarrow> ct_state \<Rightarrow> nat option option" where
  "ip_conntrack_helper_find t s = helper_find_in s (helpers s) t"

definition expect_clash :: "ip_conntrack_expect \<Rightarrow> ip_conntrack_expect \<Rightarrow> bool" where
  "expect_clash a b = ip_ct_tuple_mask_cmp (exp_tuple a) (exp_tuple b)
     \<lparr>src_ip = src_ip (exp_mask a) AND src_ip (exp_mask b), src_u = src_u (exp_mask a) AND src_u (exp_mask b),
      dst_ip = dst_ip (exp_mask a) AND dst_ip (exp_mask b), dst_u = dst_u (exp_mask a) AND dst_u (exp_mask b),
      protonum = protonum (exp_mask a) AND protonum (exp_mask b), dir = 0\<rparr>"

definition expect_matches :: "ip_conntrack_expect \<Rightarrow> ip_conntrack_expect \<Rightarrow> bool" where
  "expect_matches a b \<longleftrightarrow> exp_master a = exp_master b \<and> ip_ct_tuple_equal (exp_tuple a) (exp_tuple b)
     \<and> ip_ct_tuple_equal (exp_mask a) (exp_mask b)"

fun unexpect_in :: "ip_conntrack_expect \<Rightarrow> nat list \<Rightarrow> ct_state \<Rightarrow> ct_state option" where
  "unexpect_in x [] s = Some s"
| "unexpect_in x (i # es) s = do {
     y \<leftarrow> exps s i;
     if \<not> expect_matches y x then unexpect_in x es s
     else do {
       (was, s1) \<leftarrow> drop_expect i s;
       if was then Some s1 else unexpect_in x es s1}}"

definition ip_conntrack_unexpect_related :: "nat \<Rightarrow> ct_state \<Rightarrow> ct_state option" where
  "ip_conntrack_unexpect_related e s = do {
     x \<leftarrow> exps s e;
     unexpect_in x (List.rev (expect_list s)) s}"

text \<open>\<open>ip_conntrack_expect_alloc\<close> does not clear the object: the caller's values are given here.\<close>

definition ip_conntrack_expect_alloc :: "ct_env \<Rightarrow> nat \<Rightarrow> ip_conntrack_expect \<Rightarrow> ct_state \<Rightarrow> nat option \<times> ct_state" where
  "ip_conntrack_expect_alloc env me vals s =
     (if alloc_fails env then (None, s)
      else (Some (brk s), s\<lparr>exps := (exps s)(brk s \<mapsto> vals\<lparr>exp_master := me, exp_use := 1\<rparr>), brk := brk s + 1\<rparr>))"

definition helper_of :: "nat \<Rightarrow> ct_state \<Rightarrow> ip_conntrack_helper option" where
  "helper_of c s = do { ct \<leftarrow> cts s c; h \<leftarrow> helper ct; hlps s h }"

definition ip_conntrack_expect_insert :: "ct_env \<Rightarrow> nat \<Rightarrow> ct_state \<Rightarrow> ct_state option" where
  "ip_conntrack_expect_insert env e s = do {
     x \<leftarrow> exps s e;
     s1 \<leftarrow> upd_ct (exp_master x) (\<lambda>ct. ct\<lparr>expecting := expecting ct + 1\<rparr>) s;
     hlp \<leftarrow> helper_of (exp_master x) s1;
     Some (s1\<lparr>expect_list := e # expect_list s1, expect_next_id := expect_next_id s1 + 1,
       exps := (exps s1)(e \<mapsto> x\<lparr>exp_use := exp_use x + 2, exp_pending := True,
         exp_expires := jiffies env + help_timeout hlp * HZ, exp_id := expect_next_id s1 + 1\<rparr>)\<rparr>)}"

fun evict_in :: "nat \<Rightarrow> nat list \<Rightarrow> ct_state \<Rightarrow> ct_state option" where
  "evict_in m [] s = Some s"
| "evict_in m (i # es) s = do {
     x \<leftarrow> exps s i;
     if exp_master x \<noteq> m then evict_in m es s
     else do {
       (was, s1) \<leftarrow> drop_expect i s;
       Some s1}}"

definition evict_oldest_expect :: "nat \<Rightarrow> ct_state \<Rightarrow> ct_state option" where
  "evict_oldest_expect m s = evict_in m (List.rev (expect_list s)) s"

definition refresh_timer :: "ct_env \<Rightarrow> nat \<Rightarrow> ct_state \<Rightarrow> (bool \<times> ct_state) option" where
  "refresh_timer env i s = do {
     x \<leftarrow> exps s i;
     if \<not> exp_pending x then Some (False, s)
     else do {
       hlp \<leftarrow> helper_of (exp_master x) s;
       s1 \<leftarrow> upd_exp i (\<lambda>x. x\<lparr>exp_expires := jiffies env + help_timeout hlp * HZ\<rparr>) s;
       Some (True, s1)}}"

text \<open>The loop of \<open>ip_conntrack_expect_related\<close>: the return value, if it leaves the function.\<close>

fun related_scan :: "ct_env \<Rightarrow> ip_conntrack_expect \<Rightarrow> nat list \<Rightarrow> ct_state \<Rightarrow> (int option \<times> ct_state) option" where
  "related_scan env x [] s = Some (None, s)"
| "related_scan env x (i # es) s = do {
     y \<leftarrow> exps s i;
     if expect_matches y x then do {
       (ok, s1) \<leftarrow> refresh_timer env i s;
       if ok then Some (Some 0, s1) else related_scan env x es s1}
     else if expect_clash y x then Some (Some (- EBUSY), s)
     else related_scan env x es s}"

definition ip_conntrack_expect_related :: "ct_env \<Rightarrow> nat \<Rightarrow> ct_state \<Rightarrow> (int \<times> ct_state) option" where
  "ip_conntrack_expect_related env e s = do {
     x \<leftarrow> exps s e;
     (r, s1) \<leftarrow> related_scan env x (expect_list s) s;
     case r of
       Some ret \<Rightarrow> Some (ret, s1)
     | None \<Rightarrow> do {
         hlp \<leftarrow> helper_of (exp_master x) s1;
         m \<leftarrow> cts s1 (exp_master x);
         s2 \<leftarrow> (if max_expected hlp \<noteq> 0 \<and> max_expected hlp \<le> expecting m
               then evict_oldest_expect (exp_master x) s1 else Some s1);
         s3 \<leftarrow> ip_conntrack_expect_insert env e s2;
         Some (0, s3)}}"

definition ip_conntrack_alter_reply :: "nat \<Rightarrow> ip_conntrack_tuple \<Rightarrow> ct_state \<Rightarrow> ct_state option" where
  "ip_conntrack_alter_reply c newreply s = do {
     ct \<leftarrow> cts s c;
     h \<leftarrow> (if master ct = None \<and> expecting ct = 0 then ip_conntrack_helper_find newreply s else Some (helper ct));
     upd_ct c (\<lambda>ct. ct\<lparr>tuplehash := (fst (tuplehash ct), newreply), helper := h\<rparr>) s}"

definition ip_conntrack_helper_register :: "nat \<Rightarrow> ct_state \<Rightarrow> (int \<times> ct_state) option" where
  "ip_conntrack_helper_register h s = do {
     x \<leftarrow> hlps s h;
     if help_timeout x = 0 then None else Some (0, s\<lparr>helpers := h # helpers s\<rparr>)}"

text \<open>\<open>list_for_each_entry_safe\<close> over the expectations of \<open>me\<close>, then \<open>unhelp\<close> at every tuple; \<open>LIST_FIND_W\<close> goes
  through the whole list since \<open>unhelp\<close> returns 0.\<close>

fun drop_helper_expects :: "nat \<Rightarrow> nat list \<Rightarrow> ct_state \<Rightarrow> ct_state option" where
  "drop_helper_expects me [] s = Some s"
| "drop_helper_expects me (e # es) s = do {
     x \<leftarrow> exps s e;
     m \<leftarrow> cts s (exp_master x);
     if helper m \<noteq> Some me then drop_helper_expects me es s
     else do {
       (was, s1) \<leftarrow> drop_expect e s;
       drop_helper_expects me es s1}}"

fun unhelp :: "nat \<Rightarrow> nat list \<Rightarrow> ct_state \<Rightarrow> ct_state option" where
  "unhelp me [] s = Some s"
| "unhelp me (c # cs) s = do {
     s1 \<leftarrow> upd_ct c (\<lambda>ct. if helper ct = Some me then ct\<lparr>helper := None\<rparr> else ct) s;
     unhelp me cs s1}"

definition table_refs :: "ct_state \<Rightarrow> nat list" where
  "table_refs s = concat (map (\<lambda>i. map fst (hash s (of_nat i))) [0..<unat (htable_size s)])"

definition ip_conntrack_helper_unregister :: "nat \<Rightarrow> ct_state \<Rightarrow> ct_state option" where
  "ip_conntrack_helper_unregister me s = do {
     s1 \<leftarrow> drop_helper_expects me (expect_list s) (s\<lparr>helpers := remove1 me (helpers s)\<rparr>);
     s2 \<leftarrow> unhelp me (unconfirmed s1) s1;
     unhelp me (table_refs s2) s2}"

definition ip_conntrack_attach :: "sk_buff \<Rightarrow> sk_buff \<Rightarrow> ct_state \<Rightarrow> (sk_buff \<times> ct_state) option" where
  "ip_conntrack_attach nskb skb s = do {
     let ctinfo = (if CTINFO2DIR (nfctinfo skb) = IP_CT_DIR_ORIGINAL then IP_CT_RELATED + IP_CT_IS_REPLY else IP_CT_RELATED);
     let nskb' = nskb\<lparr>nfct := nfct skb, nfctinfo := ctinfo\<rparr>;
     case nfct skb of
       None \<Rightarrow> Some (nskb', s)
     | Some c \<Rightarrow> do { s1 \<leftarrow> nf_conntrack_get c s; Some (nskb', s1) }}"

subsection \<open>Walking the table\<close>

text \<open>\<open>iter\<close> may change the connection and says whether it is to go.\<close>

fun iter_list :: "(ip_conntrack \<Rightarrow> bool \<times> ip_conntrack) \<Rightarrow> nat list \<Rightarrow> ct_state \<Rightarrow> (nat option \<times> ct_state) option" where
  "iter_list iter [] s = Some (None, s)"
| "iter_list iter (c # cs) s = do {
     ct \<leftarrow> cts s c;
     let (dead, ct') = iter ct;
     let s1 = s\<lparr>cts := (cts s)(c \<mapsto> ct')\<rparr>;
     if dead then Some (Some c, s1) else iter_list iter cs s1}"

function corpse_buckets :: "(ip_conntrack \<Rightarrow> bool \<times> ip_conntrack) \<Rightarrow> nat \<Rightarrow> nat \<Rightarrow> ct_state
    \<Rightarrow> (nat option \<times> nat \<times> ct_state) option" where
  "corpse_buckets iter sz b s =
     (if sz \<le> b then Some (None, b, s)
      else case iter_list iter (map fst (hash s (of_nat b))) s of
        None \<Rightarrow> None
      | Some (Some c, s1) \<Rightarrow> Some (Some c, b, s1)
      | Some (None, s1) \<Rightarrow> corpse_buckets iter sz (Suc b) s1)"
  by pat_completeness auto

termination
  by (relation "measure (\<lambda>(iter, sz, b, s). sz - b)") auto

declare corpse_buckets.simps [simp del]

definition get_next_corpse :: "(ip_conntrack \<Rightarrow> bool \<times> ip_conntrack) \<Rightarrow> nat \<Rightarrow> ct_state
    \<Rightarrow> (nat option \<times> nat \<times> ct_state) option" where
  "get_next_corpse iter b s = do {
     (h, b1, s1) \<leftarrow> corpse_buckets iter (unat (htable_size s)) b s;
     (h', s2) \<leftarrow> (case h of None \<Rightarrow> iter_list iter (unconfirmed s1) s1 | Some c \<Rightarrow> Some (Some c, s1));
     case h' of
       None \<Rightarrow> Some (None, b1, s2)
     | Some c \<Rightarrow> do { s3 \<leftarrow> nf_conntrack_get c s2; Some (Some c, b1, s3) }}"

text \<open>The references are raised by 60000 around the removal, by which the hardware NAT module tells it from the others.\<close>

definition bury :: "ct_env \<Rightarrow> nat \<Rightarrow> ct_state \<Rightarrow> ct_state option" where
  "bury env c s = do {
     s1 \<leftarrow> upd_ct c (\<lambda>ct. ct\<lparr>ct_use := ct_use ct + 60000\<rparr>) s;
     s2 \<leftarrow> death_by_timeout env c s1;
     upd_ct c (\<lambda>ct. let u = ct_use ct - 60000 in ct\<lparr>ct_use := (if u = 0 then 1 else u)\<rparr>) s2}"

partial_function (option) iterate_from :: "ct_env \<Rightarrow> (ip_conntrack \<Rightarrow> bool \<times> ip_conntrack) \<Rightarrow> nat \<Rightarrow> ct_state
    \<Rightarrow> ct_state option" where
  "iterate_from env iter b s = do {
     (h, b1, s1) \<leftarrow> get_next_corpse iter b s;
     case h of
       None \<Rightarrow> Some s1
     | Some c \<Rightarrow> do {
         (was, s2) \<leftarrow> del_timer c s1;
         s3 \<leftarrow> (if was then bury env c s2 else Some s2);
         s4 \<leftarrow> ip_conntrack_put c s3;
         iterate_from env iter b1 s4}}"

declare iterate_from.simps [code]

definition ip_ct_iterate_cleanup :: "ct_env \<Rightarrow> (ip_conntrack \<Rightarrow> bool \<times> ip_conntrack) \<Rightarrow> ct_state \<Rightarrow> ct_state option" where
  "ip_ct_iterate_cleanup env iter s = iterate_from env iter 0 s"

definition ip_conntrack_flush :: "ct_env \<Rightarrow> ct_state \<Rightarrow> ct_state option" where
  "ip_conntrack_flush env s = ip_ct_iterate_cleanup env (\<lambda>ct. (True, ct)) s"

fun rehash_into :: "ct_state \<Rightarrow> u32 \<Rightarrow> u32 \<Rightarrow> (nat \<times> u8) list \<Rightarrow> (u32 \<Rightarrow> (nat \<times> u8) list)
    \<Rightarrow> (u32 \<Rightarrow> (nat \<times> u8) list) option" where
  "rehash_into s sz rnd [] tab = Some tab"
| "rehash_into s sz rnd (n # ns) tab = do {
     ct \<leftarrow> cts s (fst n);
     let b = hash_conntrack' (tuple_at ct (snd n)) sz rnd;
     rehash_into s sz rnd ns (tab(b := tab b @ [n]))}"

definition set_hashsize :: "ct_env \<Rightarrow> u32 \<Rightarrow> ct_state \<Rightarrow> (int \<times> ct_state) option" where
  "set_hashsize env hashsize s =
     (if htable_size s = 0 then Some (0, s\<lparr>htable_size := hashsize\<rparr>)
      else if hashsize = 0 then Some (- EINVAL, s)
      else if alloc_fails env then Some (- ENOMEM, s)
      else do {
        tab \<leftarrow> rehash_into s hashsize (random env)
          (concat (map (\<lambda>i. hash s (of_nat i)) [0..<unat (htable_size s)])) (\<lambda>b. []);
        Some (0, s\<lparr>hash := tab, htable_size := hashsize, hash_rnd := random env\<rparr>)})"

text \<open>\<open>getorigdst\<close>: the socket's addresses and ports, the length the caller gave, whether the copy to user space
  fails; the answer is the return value with the port and address copied out.\<close>

definition getorigdst :: "u32 \<Rightarrow> u16 \<Rightarrow> u32 \<Rightarrow> u16 \<Rightarrow> bool \<Rightarrow> u32 \<Rightarrow> bool \<Rightarrow> ct_state
    \<Rightarrow> (int \<times> (u16 \<times> u32) option \<times> ct_state) option" where
  "getorigdst rcv_saddr sport daddr dport is_tcp len copy_fault s =
     (if \<not> is_tcp then Some (- ENOPROTOOPT, None, s)
      else if len < 16 then Some (- EINVAL, None, s)
      else do {
        (h, s1) \<leftarrow> ip_conntrack_find_get \<lparr>src_ip = rcv_saddr, src_u = sport, dst_ip = daddr, dst_u = dport,
          protonum = IPPROTO_TCP, dir = 0\<rparr> None s;
        case h of
          None \<Rightarrow> Some (- ENOENT, None, s1)
        | Some (c, d) \<Rightarrow> do {
            ct \<leftarrow> cts s1 c;
            let t = tuple_at ct IP_CT_DIR_ORIGINAL;
            s2 \<leftarrow> ip_conntrack_put c s1;
            Some (if copy_fault then (- EFAULT, None, s2) else (0, Some (dst_u t, dst_ip t), s2))}})"

subsection \<open>Initialisation\<close>

text \<open>The static data before \<open>ip_conntrack_init\<close>; the size is 0 unless the boot parameter \<open>hashsize\<close> set it.\<close>

definition ct_boot :: "u32 \<Rightarrow> ct_state" where
  "ct_boot sz = \<lparr>cts = (\<lambda>c. None), exps = (\<lambda>e. None), hlps = (\<lambda>h. None), brk = 1, hash = (\<lambda>h. []), unconfirmed = [], expect_list = [],
     helpers = [], bysource = (\<lambda>h. []), nat_loaded = False, ct_count = 0, next_id = 1, expect_next_id = 1, htable_size = sz,
     nat_htable_size = 0, hash_rnd = 0, rnd_initted = False, conntrack_max = 0, nat_tcp_port = 0, nat_udp_port = 0, nat_icmp_id = 0\<rparr>"

text \<open>From the number of pages, of 4096 bytes each; a list head has 8 bytes. The outcomes of \<open>nf_register_sockopt\<close>, of
  \<open>alloc_hashtable\<close> and of the two \<open>kmem_cache_create\<close> are inputs; the tables of protocols are \<open>ct_l4\<close>.\<close>

definition ip_conntrack_init :: "u32 \<Rightarrow> int \<Rightarrow> bool \<Rightarrow> bool \<Rightarrow> bool \<Rightarrow> ct_state \<Rightarrow> int \<times> ct_state" where
  "ip_conntrack_init num_physpages sockopt hash_ok slab_ok exp_slab_ok s =
     (let sz = (if htable_size s \<noteq> 0 then htable_size s
                else let n = (push_bit 12 num_physpages div 16384) div 8;
                         n' = (if 262144 < num_physpages then 8192 else n)
                     in if n' < 16 then 16 else n');
          s1 = s\<lparr>htable_size := sz, conntrack_max := sint (8 * sz)\<rparr>
      in if sockopt \<noteq> 0 then (sockopt, s1)
         else if hash_ok \<and> slab_ok \<and> exp_slab_ok then (0, s1) else (- ENOMEM, s1))"

end
