(* ===== verification/Ct_Table.thy ===== *)
theory Ct_Table
  imports Ct_Core
begin

section \<open>The invariant of the connection table\<close>

text \<open>
  What \<^verbatim>\<open>ip_conntrack_core.c\<close> relies on between two critical sections, and that its operations keep it:
  the hash chains hold exactly the confirmed connections, each under the hash of its two tuples, and no two
  connections share a tuple; a pending timer means that the connection is in the table; expectations belong to live
  connections, which count them; and the reference count of a connection is the number of its holders: the table,
  the connections it is master of, and the packets and callers outside, counted by \<open>ext\<close>.

  The table and the reference counts look at a connection only through its \<open>core\<close>.
\<close>

named_theorems ct_simps \<open>how the operations change the parts of the state\<close>

subsection \<open>Cores\<close>

record ct_core =
  k_tuples :: "ip_conntrack_tuple \<times> ip_conntrack_tuple"
  k_status :: u32
  k_pending :: bool
  k_master :: "nat option"
  k_tcp :: ip_ct_tcp
  k_use :: int

definition core :: "ip_conntrack \<Rightarrow> ct_core" where
  "core ct = \<lparr>k_tuples = tuplehash ct, k_status = status ct, k_pending = pending ct, k_master = master ct,
     k_tcp = tcp ct, k_use = ct_use ct\<rparr>"

definition cores :: "ct_state \<Rightarrow> nat \<rightharpoonup> ct_core" where
  "cores s c = map_option core (cts s c)"

definition k_tuple :: "ct_core \<Rightarrow> u8 \<Rightarrow> ip_conntrack_tuple" where
  "k_tuple k d = (if d = IP_CT_DIR_ORIGINAL then fst (k_tuples k) else snd (k_tuples k))"

lemma core_sel [simp]:
  "k_tuples (core ct) = tuplehash ct" "k_status (core ct) = status ct" "k_pending (core ct) = pending ct"
  "k_master (core ct) = master ct" "k_use (core ct) = ct_use ct" "k_tcp (core ct) = tcp ct" "k_tuple (core ct) d = tuple_at ct d"
  by (simp_all add: core_def k_tuple_def tuple_at_def)

lemma is_confirmed_iff: "is_confirmed ct \<longleftrightarrow> bit (status ct) 3"
  by (simp add: is_confirmed_def test_status_def)

lemma cores_Some: "cores s c = Some k \<longleftrightarrow> (\<exists>ct. cts s c = Some ct \<and> k = core ct)"
  by (auto simp: cores_def)

lemma cores_None: "cores s c = None \<longleftrightarrow> cts s c = None"
  by (simp add: cores_def)

lemma dom_cores: "dom (cores s) = dom (cts s)"
  by (auto simp: cores_def)

lemma cores_upd [ct_simps]: "cores (s\<lparr>cts := (cts s)(c \<mapsto> ct)\<rparr>) = (cores s)(c \<mapsto> core ct)"
  "cores (s\<lparr>cts := (cts s)(c := None)\<rparr>) = (cores s)(c := None)"
  by (auto simp: cores_def)

lemma cores_frame: "cts s' = cts s \<Longrightarrow> cores s' = cores s"
  by (auto simp: cores_def)

lemma upd_ct_core:
  assumes "upd_ct c f s = Some s'" "\<And>ct. core (f ct) = core ct"
  shows "cores s' = cores s"
  using assms by (auto simp: upd_ct_def cores_def split: option.splits)

subsection \<open>Lookup\<close>

definition linked :: "ct_state \<Rightarrow> nat \<Rightarrow> u8 \<Rightarrow> bool" where
  "linked s c d \<longleftrightarrow> (\<exists>h. (c, d) \<in> set (hash s h))"

definition tab_inv :: "ct_state \<Rightarrow> bool" where
  "tab_inv s \<longleftrightarrow>
     (\<forall>h. distinct (hash s h))
   \<and> (\<forall>h c d. (c, d) \<in> set (hash s h) \<longrightarrow>
        (d = 0 \<or> d = 1) \<and> (\<exists>k. cores s c = Some k \<and> bit (k_status k) 3 \<and> hash_conntrack s (k_tuple k d) = h))
   \<and> (\<forall>c. linked s c 0 \<longleftrightarrow> linked s c 1)
   \<and> (\<forall>c d c' d' k k'. linked s c d \<and> linked s c' d' \<and> cores s c = Some k \<and> cores s c' = Some k'
        \<and> ip_ct_tuple_equal (k_tuple k d) (k_tuple k' d') \<longrightarrow> c = c')
   \<and> (\<forall>c k. cores s c = Some k \<and> k_pending k \<longrightarrow> linked s c 0)
   \<and> distinct (unconfirmed s)
   \<and> (\<forall>c \<in> set (unconfirmed s). \<exists>k. cores s c = Some k \<and> \<not> bit (k_status k) 3)
   \<and> (rnd_initted s \<or> (\<forall>c. cores s c = None))"

lemma tab_invD:
  assumes "tab_inv s"
  shows "distinct (hash s h)"
    "(c, d) \<in> set (hash s h) \<Longrightarrow> d = 0 \<or> d = 1"
    "(c, d) \<in> set (hash s h) \<Longrightarrow> \<exists>k. cores s c = Some k \<and> bit (k_status k) 3 \<and> hash_conntrack s (k_tuple k d) = h"
    "linked s c 0 \<longleftrightarrow> linked s c 1"
    "linked s c d \<Longrightarrow> linked s c' d' \<Longrightarrow> cores s c = Some k \<Longrightarrow> cores s c' = Some k'
       \<Longrightarrow> ip_ct_tuple_equal (k_tuple k d) (k_tuple k' d') \<Longrightarrow> c = c'"
    "cores s c = Some k \<Longrightarrow> k_pending k \<Longrightarrow> linked s c 0"
    "distinct (unconfirmed s)"
    "c \<in> set (unconfirmed s) \<Longrightarrow> \<exists>k. cores s c = Some k \<and> \<not> bit (k_status k) 3"
    "cores s c = Some k \<Longrightarrow> rnd_initted s"
  using assms unfolding tab_inv_def by (blast | (elim conjE, force))+

text \<open>The table part of the state determines the invariant and the outcome of lookups.\<close>

definition same_table :: "ct_state \<Rightarrow> ct_state \<Rightarrow> bool" where
  "same_table s s' \<longleftrightarrow> cores s' = cores s \<and> hash s' = hash s \<and> unconfirmed s' = unconfirmed s
     \<and> htable_size s' = htable_size s \<and> hash_rnd s' = hash_rnd s \<and> rnd_initted s' = rnd_initted s"

lemma same_table_refl [simp]: "same_table s s"
  by (simp add: same_table_def)

lemma same_table_trans: "same_table s s' \<Longrightarrow> same_table s' s'' \<Longrightarrow> same_table s s''"
  by (simp add: same_table_def)

lemma hash_conntrack_cong: "htable_size s' = htable_size s \<Longrightarrow> hash_rnd s' = hash_rnd s
    \<Longrightarrow> hash_conntrack s' = hash_conntrack s"
  by (simp add: hash_conntrack_def fun_eq_iff)

lemma linked_cong: "hash s' = hash s \<Longrightarrow> linked s' = linked s"
  by (simp add: linked_def fun_eq_iff)

lemma same_table_tab_inv: "same_table s s' \<Longrightarrow> tab_inv s' \<longleftrightarrow> tab_inv s"
  using hash_conntrack_cong [of s' s] linked_cong [of s' s]
  by (simp add: same_table_def tab_inv_def)

lemma linked_cores: "tab_inv s \<Longrightarrow> linked s c d \<Longrightarrow> \<exists>k. cores s c = Some k \<and> bit (k_status k) 3"
  using tab_invD(3) by (fastforce simp: linked_def)

lemma linked_dir: "tab_inv s \<Longrightarrow> linked s c d \<Longrightarrow> d = 0 \<or> d = 1"
  using tab_invD(2) by (fastforce simp: linked_def)

lemma linked_both: "tab_inv s \<Longrightarrow> linked s c d \<Longrightarrow> linked s c 0 \<and> linked s c 1"
  using linked_dir tab_invD(4) by metis

lemma linked_in_chain: "tab_inv s \<Longrightarrow> linked s c d \<Longrightarrow> cores s c = Some k \<Longrightarrow> (c, d) \<in> set (hash s (hash_conntrack s (k_tuple k d)))"
  using tab_invD(3) by (fastforce simp: linked_def)

lemma tuple_cmp_core: "conntrack_tuple_cmp s n t ign =
    map_option (\<lambda>k. Some (fst n) \<noteq> ign \<and> ip_ct_tuple_equal t (k_tuple k (snd n))) (cores s (fst n))"
  by (cases "cts s (fst n)") (simp_all add: conntrack_tuple_cmp_def cores_def)

lemma find_SomeD: "List.find P xs = Some x \<Longrightarrow> x \<in> set xs \<and> P x"
  by (induction xs) (auto split: if_splits)

lemma chain_find_cong:
  assumes "\<And>n. n \<in> set ns \<Longrightarrow> cores s' (fst n) = cores s (fst n)"
  shows "chain_find s' ns t ign = chain_find s ns t ign"
  using assms
proof (induction ns)
  case (Cons n ns)
  then have "conntrack_tuple_cmp s' n t ign = conntrack_tuple_cmp s n t ign" by (simp add: tuple_cmp_core)
  with Cons show ?case by (cases "conntrack_tuple_cmp s n t ign") simp_all
qed simp

text \<open>The chain holds live connections, so the search does not fault and returns the first that matches.\<close>

lemma chain_find_total:
  assumes "\<forall>n \<in> set ns. cores s (fst n) \<noteq> None"
  shows "chain_find s ns t ign = Some (List.find
    (\<lambda>n. Some (fst n) \<noteq> ign \<and> ip_ct_tuple_equal t (k_tuple (the (cores s (fst n))) (snd n))) ns)"
  using assms
proof (induction ns)
  case (Cons n ns)
  then obtain k where "cores s (fst n) = Some k" by auto
  with Cons show ?case by (simp add: tuple_cmp_core)
qed simp

definition lookup :: "ct_state \<Rightarrow> ip_conntrack_tuple \<Rightarrow> nat option \<Rightarrow> (nat \<times> u8) option" where
  "lookup s t ign = List.find
     (\<lambda>n. Some (fst n) \<noteq> ign \<and> ip_ct_tuple_equal t (k_tuple (the (cores s (fst n))) (snd n))) (hash s (hash_conntrack s t))"

lemma find_lookup: "tab_inv s \<Longrightarrow> ip_conntrack_find t ign s = Some (lookup s t ign)"
  unfolding ip_conntrack_find_def lookup_def
  by (rule chain_find_total) (use tab_invD(3) in fastforce)

lemma lookup_cong: "same_table s s' \<Longrightarrow> lookup s' = lookup s"
  using hash_conntrack_cong [of s' s] by (simp add: lookup_def same_table_def fun_eq_iff)

lemma lookup_SomeD:
  assumes "tab_inv s" "lookup s t ign = Some (c, d)"
  shows "linked s c d" "Some c \<noteq> ign" "\<exists>k. cores s c = Some k \<and> bit (k_status k) 3 \<and> ip_ct_tuple_equal t (k_tuple k d)"
proof -
  from assms(2) have n: "(c, d) \<in> set (hash s (hash_conntrack s t))" "Some c \<noteq> ign"
    "ip_ct_tuple_equal t (k_tuple (the (cores s c)) d)"
    unfolding lookup_def by (auto dest: find_SomeD)
  then show "linked s c d" "Some c \<noteq> ign" by (auto simp: linked_def)
  show "\<exists>k. cores s c = Some k \<and> bit (k_status k) 3 \<and> ip_ct_tuple_equal t (k_tuple k d)"
    using tab_invD(3) [OF assms(1) n(1)] n(3) by auto
qed

lemma lookup_NoneD:
  assumes "tab_inv s" "lookup s t ign = None" "linked s c d" "cores s c = Some k" "Some c \<noteq> ign"
  shows "\<not> ip_ct_tuple_equal t (k_tuple k d)"
proof
  assume e: "ip_ct_tuple_equal t (k_tuple k d)"
  have "hash_conntrack s t = hash_conntrack s (k_tuple k d)"
    unfolding hash_conntrack_def by (rule tuple_equal_hash [OF e])
  then have "(c, d) \<in> set (hash s (hash_conntrack s t))" using linked_in_chain [OF assms(1,3,4)] by simp
  then show False using assms(2,4,5) e by (fastforce simp: lookup_def find_None_iff)
qed

lemma lookup_linked:
  assumes "tab_inv s" "linked s c d" "cores s c = Some k" "ip_ct_tuple_equal t (k_tuple k d)" "Some c \<noteq> ign"
  shows "\<exists>d'. lookup s t ign = Some (c, d')"
proof (cases "lookup s t ign")
  case None
  then show ?thesis using lookup_NoneD assms by blast
next
  case (Some n)
  then obtain c' d' where n: "lookup s t ign = Some (c', d')" by (cases n) auto
  obtain k' where "linked s c' d'" "cores s c' = Some k'" "ip_ct_tuple_equal t (k_tuple k' d')"
    using lookup_SomeD [OF assms(1) n] by blast
  then have "c = c'"
    using tab_invD(5) [OF assms(1,2) _ assms(3)] assms(4) tuple_equal_trans tuple_equal_sym by blast
  with n show ?thesis by blast
qed


subsection \<open>Expectations\<close>

definition owned :: "ct_state \<Rightarrow> nat \<Rightarrow> nat list" where
  "owned s c = filter (\<lambda>e. map_option exp_master (exps s e) = Some c) (expect_list s)"

definition exp_inv :: "nat set \<Rightarrow> ct_state \<Rightarrow> bool" where
  "exp_inv D s \<longleftrightarrow>
     distinct (expect_list s)
   \<and> (\<forall>e \<in> set (expect_list s). \<exists>x. exps s e = Some x \<and> exp_pending x \<and> 2 \<le> exp_use x
        \<and> exp_master x \<in> dom (cts s) - D)
   \<and> (\<forall>e x. exps s e = Some x \<and> exp_pending x \<longrightarrow> e \<in> set (expect_list s))
   \<and> (\<forall>c ct. cts s c = Some ct \<longrightarrow> expecting ct = of_nat (length (owned s c)))
   \<and> length (expect_list s) < 2 ^ 32"

lemma exp_invD:
  assumes "exp_inv D s"
  shows "distinct (expect_list s)"
    "e \<in> set (expect_list s) \<Longrightarrow> \<exists>x. exps s e = Some x \<and> exp_pending x \<and> 2 \<le> exp_use x \<and> exp_master x \<in> dom (cts s) - D"
    "exps s e = Some x \<Longrightarrow> exp_pending x \<Longrightarrow> e \<in> set (expect_list s)"
    "cts s c = Some ct \<Longrightarrow> expecting ct = of_nat (length (owned s c))"
    "length (expect_list s) < 2 ^ 32"
  using assms unfolding exp_inv_def by blast+

text \<open>Operations on expectations leave the rest of the state alone, and the cores of the connections.\<close>

definition exp_frame :: "ct_state \<Rightarrow> ct_state \<Rightarrow> bool" where
  "exp_frame s s' \<longleftrightarrow> (\<exists>m x l. s' = s\<lparr>cts := m, exps := x, expect_list := l\<rparr>) \<and> cores s' = cores s"

lemma exp_frame_refl [simp]: "exp_frame s s"
  unfolding exp_frame_def by (intro conjI exI [of _ "cts s"] exI [of _ "exps s"] exI [of _ "expect_list s"]) simp_all

lemma exp_frame_trans: "exp_frame s s' \<Longrightarrow> exp_frame s' s'' \<Longrightarrow> exp_frame s s''"
  by (fastforce simp: exp_frame_def)

lemma exp_frame_same:
  assumes "exp_frame s s'"
  shows "same_table s s'" "bysource s' = bysource s" "nat_loaded s' = nat_loaded s" "nat_htable_size s' = nat_htable_size s"
    "brk s' = brk s" "cores s' = cores s" "ct_count s' = ct_count s" "conntrack_max s' = conntrack_max s"
    "helpers s' = helpers s" "hlps s' = hlps s"
  using assms by (auto simp: exp_frame_def same_table_def)

lemma length_owned_le: "length (owned s c) \<le> length (expect_list s)"
  by (simp add: owned_def)

text \<open>The end of an expectation that is in the list: nothing faults and its master counts one less.\<close>

lemma filter_remove1: "distinct xs \<Longrightarrow> filter P (remove1 x xs) = remove1 x (filter P xs)"
  by (induction xs) (auto simp: filter_id_conv)

lemma expect_out:
  assumes i: "exp_inv D s" and e: "e \<in> set (expect_list s)"
    and x: "exps s e = Some x" "cts s (exp_master x) = Some m" and y: "\<And>x'. y = Some x' \<Longrightarrow> \<not> exp_pending x'"
    and s': "s' = s\<lparr>exps := (exps s)(e := y), expect_list := remove1 e (expect_list s),
      cts := (cts s)(exp_master x \<mapsto> m\<lparr>expecting := expecting m - 1\<rparr>)\<rparr>"
  shows "exp_frame s s'" "exp_inv D s'"
proof -
  show "exp_frame s s'"
    unfolding exp_frame_def
  proof
    show "\<exists>m x l. s' = s\<lparr>cts := m, exps := x, expect_list := l\<rparr>"
      by (rule exI [of _ "cts s'"], rule exI [of _ "exps s'"], rule exI [of _ "expect_list s'"]) (simp add: s')
    show "cores s' = cores s" using x(2) by (auto simp: cores_def s' core_def)
  qed
  note d = exp_invD(1) [OF i]
  have ne: "e' \<in> set (remove1 e (expect_list s)) \<longleftrightarrow> e' \<in> set (expect_list s) \<and> e' \<noteq> e" for e' using d by auto
  have ow: "owned s' c = remove1 e (owned s c)" for c
  proof -
    have "owned s' c = filter (\<lambda>e'. map_option exp_master (exps s e') = Some c) (remove1 e (expect_list s))"
      unfolding owned_def using d by (intro filter_cong) (auto simp: s')
    then show ?thesis by (simp add: owned_def filter_remove1 [OF d])
  qed
  have own: "e \<in> set (owned s c) \<longleftrightarrow> c = exp_master x" for c using e x(1) by (auto simp: owned_def)
  have cnt: "expecting ct = of_nat (length (owned s' c))" if ct: "cts s' c = Some ct" for c ct
  proof (cases "c = exp_master x")
    case True
    then have "1 \<le> length (owned s c)" using own [of c] by (cases "owned s c") auto
    moreover have "expecting ct = of_nat (length (owned s c)) - 1" using True ct exp_invD(4) [OF i x(2)] by (auto simp: s')
    ultimately show ?thesis using True own [of c] by (simp add: ow length_remove1 of_nat_diff)
  next
    case False
    then have "e \<notin> set (owned s c)" "cts s c = Some ct" using own ct by (auto simp: s')
    then show ?thesis using exp_invD(4) [OF i] by (simp add: ow remove1_idem)
  qed
  show "exp_inv D s'"
    unfolding exp_inv_def
  proof (intro conjI ballI allI impI)
    fix e' assume "e' \<in> set (expect_list s')"
    then have e': "e' \<in> set (expect_list s)" "e' \<noteq> e" using ne by (simp_all add: s')
    then show "\<exists>x. exps s' e' = Some x \<and> exp_pending x \<and> 2 \<le> exp_use x \<and> exp_master x \<in> dom (cts s') - D"
      using exp_invD(2) [OF i e'(1)] by (auto simp: s')
  next
    fix e' x' assume "exps s' e' = Some x' \<and> exp_pending x'"
    then show "e' \<in> set (expect_list s')"
      using exp_invD(3) [OF i] ne y by (auto simp: s' split: if_splits)
  next
    show "distinct (expect_list s')" using d by (simp add: s')
    fix c ct assume "cts s' c = Some ct"
    then show "expecting ct = of_nat (length (owned s' c))" by (rule cnt)
  next
    show "length (expect_list s') < 2 ^ 32"
      by (rule le_less_trans [OF _ exp_invD(5) [OF i]]) (simp add: s' length_remove1)
  qed
qed

lemma drop_expect_ok:
  assumes i: "exp_inv D s" and e: "e \<in> set (expect_list s)"
  shows "\<exists>s'. drop_expect e s = Some (True, s') \<and> exp_frame s s' \<and> exp_inv D s'
    \<and> expect_list s' = remove1 e (expect_list s) \<and> (\<forall>e'. e' \<noteq> e \<longrightarrow> exps s' e' = exps s e')"
proof -
  obtain x m where x: "exps s e = Some x" "exp_pending x" "2 \<le> exp_use x" "cts s (exp_master x) = Some m"
    using exp_invD(2) [OF i e] by auto
  define y where "y = (if exp_use x = 2 then None else Some (x\<lparr>exp_pending := False, exp_use := exp_use x - 2\<rparr>))"
  define s' where "s' = s\<lparr>exps := (exps s)(e := y), expect_list := remove1 e (expect_list s),
    cts := (cts s)(exp_master x \<mapsto> m\<lparr>expecting := expecting m - 1\<rparr>)\<rparr>"
  have "drop_expect e s = Some (True, s')"
    using x e by (simp add: drop_expect_def del_timer_exp_def ip_ct_unlink_expect_def upd_ct_def
        ip_conntrack_expect_put_def s'_def y_def)
  moreover have y: "\<not> exp_pending x'" if "y = Some x'" for x' using that by (auto simp: y_def split: if_splits)
  note expect_out [OF i e x(1,4) y s'_def]
  ultimately show ?thesis by (simp add: s'_def)
qed

lemma remove_expectations_in_ok:
  assumes "exp_inv D s" "set es \<subseteq> set (expect_list s)" "distinct es"
  shows "\<exists>s'. remove_expectations_in c es s = Some s' \<and> exp_frame s s' \<and> exp_inv D s'
    \<and> owned s' c = filter (\<lambda>e. e \<notin> set es) (owned s c)"
  using assms
proof (induction es arbitrary: s)
  case (Cons e es)
  then obtain x where x: "exps s e = Some x" using exp_invD(2) [OF Cons.prems(1), of e] by auto
  show ?case
  proof (cases "exp_master x = c")
    case True
    obtain s1 where s1: "drop_expect e s = Some (True, s1)" "exp_frame s s1" "exp_inv D s1"
      "expect_list s1 = remove1 e (expect_list s)" "\<forall>e'. e' \<noteq> e \<longrightarrow> exps s1 e' = exps s e'"
      using drop_expect_ok [OF Cons.prems(1), of e] Cons.prems(2) by auto
    note d = exp_invD(1) [OF Cons.prems(1)]
    have es: "set es \<subseteq> set (expect_list s1)" using Cons.prems(2,3) d by (auto simp: s1(4))
    obtain s' where s': "remove_expectations_in c es s1 = Some s'" "exp_frame s1 s'" "exp_inv D s'"
      "owned s' c = filter (\<lambda>e. e \<notin> set es) (owned s1 c)"
      using Cons.IH [OF s1(3) es] Cons.prems(3) by auto
    have "owned s1 c = filter (\<lambda>e'. e \<noteq> e') (owned s c)"
    proof -
      have "owned s1 c = filter (\<lambda>e'. map_option exp_master (exps s e') = Some c) (remove1 e (expect_list s))"
        unfolding owned_def s1(4) using d s1(5) by (intro filter_cong) auto
      then show ?thesis using d by (simp add: owned_def distinct_remove1_removeAll removeAll_filter_not_eq conj_commute)
    qed
    then have "owned s' c = filter (\<lambda>e'. e' \<notin> set (e # es)) (owned s c)"
      using s'(4) by (auto intro: filter_cong)
    then show ?thesis using True x s1(1) s' exp_frame_trans [OF s1(2) s'(2)] by auto
  next
    case False
    then have "e \<notin> set (owned s c)" using x by (simp add: owned_def)
    then have "filter (\<lambda>e'. e' \<notin> set (e # es)) (owned s c) = filter (\<lambda>e'. e' \<notin> set es) (owned s c)"
      by (intro filter_cong) auto
    then show ?thesis using False x Cons.IH [OF Cons.prems(1)] Cons.prems(2,3) by simp
  qed
qed simp

lemma remove_expectations_ok:
  assumes i: "exp_inv D s" and c: "c \<in> dom (cts s)"
  shows "\<exists>s'. ip_ct_remove_expectations c s = Some s' \<and> exp_frame s s' \<and> exp_inv (insert c D) s'"
proof -
  obtain ct where ct: "cts s c = Some ct" using c by auto
  have fin: "exp_inv (insert c D) t" if "exp_inv D t" "owned t c = []" for t
  proof -
    have "exp_master x \<noteq> c" if "e \<in> set (expect_list t)" "exps t e = Some x" for e x
      using that \<open>owned t c = []\<close> by (auto simp: owned_def filter_empty_conv)
    then show ?thesis using that(1) unfolding exp_inv_def by fastforce
  qed
  show ?thesis
  proof (cases "expecting ct = 0")
    case True
    have "length (owned s c) < 2 ^ 32" using exp_invD(5) [OF i] length_owned_le [of s c] by linarith
    then have "owned s c = []"
      using exp_invD(4) [OF i ct] True by (simp add: word_of_nat_eq_0_iff) (meson dvd_imp_le length_greater_0_conv not_le)
    then show ?thesis using True ct fin i by (auto simp: ip_ct_remove_expectations_def)
  next
    case False
    obtain s' where s': "remove_expectations_in c (expect_list s) s = Some s'" "exp_frame s s'" "exp_inv D s'"
      "owned s' c = filter (\<lambda>e. e \<notin> set (expect_list s)) (owned s c)"
      using remove_expectations_in_ok [OF i] exp_invD(1) [OF i] by blast
    moreover have "owned s' c = []" using s'(4) by (auto simp: owned_def filter_empty_conv)
    ultimately show ?thesis using False ct fin by (auto simp: ip_ct_remove_expectations_def)
  qed
qed

text \<open>The expectation a new connection answers: the caller gets a reference to it.\<close>

definition exp_held :: "ct_state \<Rightarrow> nat \<Rightarrow> bool" where
  "exp_held s e \<longleftrightarrow> (\<exists>x. exps s e = Some x \<and> 1 \<le> exp_use x \<and> (e \<in> set (expect_list s) \<longrightarrow> 3 \<le> exp_use x))"

lemma exp_inv_exp:
  assumes i: "exp_inv D s" and x: "exps s e = Some x" "exp_master x' = exp_master x" "exp_pending x' = exp_pending x"
    and u: "e \<in> set (expect_list s) \<Longrightarrow> 2 \<le> exp_use x'"
  shows "exp_inv D (s\<lparr>exps := (exps s)(e \<mapsto> x')\<rparr>)" "exp_frame s (s\<lparr>exps := (exps s)(e \<mapsto> x')\<rparr>)"
proof -
  let ?s = "s\<lparr>exps := (exps s)(e \<mapsto> x')\<rparr>"
  have ow: "owned ?s = owned s" using x(1,2) by (auto simp: owned_def fun_eq_iff intro!: filter_cong)
  show "exp_inv D ?s"
    unfolding exp_inv_def ow
  proof (intro conjI allI ballI impI)
    fix e' assume "e' \<in> set (expect_list ?s)"
    then show "\<exists>x. exps ?s e' = Some x \<and> exp_pending x \<and> 2 \<le> exp_use x \<and> exp_master x \<in> dom (cts ?s) - D"
      using exp_invD(2) [OF i, of e'] x u by (auto split: if_splits)
  next
    fix e' z assume "exps ?s e' = Some z \<and> exp_pending z"
    then show "e' \<in> set (expect_list ?s)" using exp_invD(3) [OF i, of e'] x by (auto split: if_splits)
  qed (use exp_invD(1,4,5) [OF i] in simp_all)
  show "exp_frame s ?s"
    unfolding exp_frame_def
    by (intro conjI exI [of _ "cts s"] exI [of _ "exps ?s"] exI [of _ "expect_list s"]) (simp_all add: cores_def fun_eq_iff)
qed

lemma find_expectation_in_ok:
  assumes "exp_inv D s" "set es \<subseteq> set (expect_list s)"
  shows "\<exists>r s'. find_expectation_in t es s = Some (r, s') \<and> exp_frame s s' \<and> exp_inv D s'
    \<and> (\<forall>e. r = Some e \<longrightarrow> exp_held s' e \<and> (\<exists>x. exps s e = Some x \<and> e \<in> set (expect_list s)
         \<and> map_option exp_master (exps s' e) = Some (exp_master x)))"
  using assms
proof (induction es)
  case (Cons e es)
  have e: "e \<in> set (expect_list s)" using Cons.prems(2) by simp
  obtain x m where x: "exps s e = Some x" "exp_pending x" "2 \<le> exp_use x" "cts s (exp_master x) = Some m"
    using exp_invD(2) [OF Cons.prems(1) e] by auto
  consider (other) "\<not> ip_ct_tuple_mask_cmp t (exp_tuple x) (exp_mask x) \<or> \<not> is_confirmed m"
    | (perm) "ip_ct_tuple_mask_cmp t (exp_tuple x) (exp_mask x)" "is_confirmed m" "exp_flags x AND IP_CT_EXPECT_PERMANENT \<noteq> 0"
    | (once) "ip_ct_tuple_mask_cmp t (exp_tuple x) (exp_mask x)" "is_confirmed m" "exp_flags x AND IP_CT_EXPECT_PERMANENT = 0" by blast
  then show ?case
  proof cases
    case other
    then show ?thesis using Cons x by auto
  next
    case perm
    let ?x = "x\<lparr>exp_use := exp_use x + 1\<rparr>"
    have "find_expectation_in t (e # es) s = Some (Some e, s\<lparr>exps := (exps s)(e \<mapsto> ?x)\<rparr>)" using perm x by simp
    moreover have "exp_inv D (s\<lparr>exps := (exps s)(e \<mapsto> ?x)\<rparr>)" "exp_frame s (s\<lparr>exps := (exps s)(e \<mapsto> ?x)\<rparr>)"
      by (rule exp_inv_exp [OF Cons.prems(1) x(1)]; use x(3) in simp)+
    ultimately show ?thesis using e x by (simp add: exp_held_def)
  next
    case once
    let ?y = "x\<lparr>exp_pending := False, exp_use := exp_use x - 1\<rparr>"
    let ?s = "s\<lparr>exps := (exps s)(e := Some ?y), expect_list := remove1 e (expect_list s),
      cts := (cts s)(exp_master x \<mapsto> m\<lparr>expecting := expecting m - 1\<rparr>)\<rparr>"
    have "find_expectation_in t (e # es) s = Some (Some e, ?s)"
      using once x e by (simp add: del_timer_exp_def ip_ct_unlink_expect_def upd_ct_def ip_conntrack_expect_put_def)
    moreover have "exp_frame s ?s" "exp_inv D ?s"
      by (rule expect_out [OF Cons.prems(1) e x(1,4) _ refl]; simp)+
    moreover have "e \<notin> set (remove1 e (expect_list s))" using exp_invD(1) [OF Cons.prems(1)] by simp
    ultimately show ?thesis using x e by (simp add: exp_held_def)
  qed
qed simp

lemma find_expectation_ok:
  assumes "exp_inv D s"
  shows "\<exists>r s'. find_expectation t s = Some (r, s') \<and> exp_frame s s' \<and> exp_inv D s'
    \<and> (\<forall>e. r = Some e \<longrightarrow> exp_held s' e \<and> (\<exists>x. exps s e = Some x \<and> e \<in> set (expect_list s)
         \<and> map_option exp_master (exps s' e) = Some (exp_master x)))"
  unfolding find_expectation_def by (rule find_expectation_in_ok [OF assms]) simp

lemma expect_put_ok:
  assumes i: "exp_inv D s" and h: "exp_held s e"
  shows "\<exists>s'. ip_conntrack_expect_put e s = Some s' \<and> exp_frame s s' \<and> exp_inv D s'"
proof -
  obtain x where x: "exps s e = Some x" "1 \<le> exp_use x" "e \<in> set (expect_list s) \<Longrightarrow> 3 \<le> exp_use x"
    using h by (auto simp: exp_held_def)
  show ?thesis
  proof (cases "exp_use x = 1")
    case False
    have "exp_inv D (s\<lparr>exps := (exps s)(e \<mapsto> x\<lparr>exp_use := exp_use x - 1\<rparr>)\<rparr>)"
      "exp_frame s (s\<lparr>exps := (exps s)(e \<mapsto> x\<lparr>exp_use := exp_use x - 1\<rparr>)\<rparr>)"
      by (rule exp_inv_exp [OF i x(1)]; use x(3) in simp)+
    then show ?thesis using False x(1) by (simp add: ip_conntrack_expect_put_def)
  next
    case True
    then have e: "e \<notin> set (expect_list s)" using x(3) by auto
    let ?s = "s\<lparr>exps := (exps s)(e := None)\<rparr>"
    have ow: "owned ?s = owned s" using e by (auto simp: owned_def fun_eq_iff intro!: filter_cong)
    have "exp_inv D ?s"
      unfolding exp_inv_def ow using exp_invD [OF i] e by (auto split: if_splits)
    moreover have "exp_frame s ?s"
      unfolding exp_frame_def
      by (intro conjI exI [of _ "cts s"] exI [of _ "exps ?s"] exI [of _ "expect_list s"]) (simp_all add: cores_def fun_eq_iff)
    ultimately show ?thesis using True x(1) by (simp add: ip_conntrack_expect_put_def)
  qed
qed

end
