(* ===== verification/Ct_Refs.thy ===== *)
theory Ct_Refs
  imports Ct_Table
begin

section \<open>Reference counts and the invariant of the whole table\<close>

text \<open>
  The reference count of a connection is the number of its holders: the table, the connections it is master of, and
  the packets and callers outside, counted by \<open>ext\<close>. With the invariants of the table, of the expectations and of the
  NAT chains this makes up \<open>ct_inv\<close>, which the operations of \<^verbatim>\<open>ip_conntrack_core.c\<close> keep; none of them touches an
  object that is gone.
\<close>

subsection \<open>Reference counts\<close>

definition nat_inv :: "nat set \<Rightarrow> ct_state \<Rightarrow> bool" where
  "nat_inv D s \<longleftrightarrow>
     (\<forall>h. distinct (bysource s h))
   \<and> (\<forall>h c. c \<in> set (bysource s h) \<longrightarrow> c \<notin> D \<and> (\<exists>k. cores s c = Some k \<and> k_status k AND IPS_NAT_DONE_MASK \<noteq> 0
        \<and> hash_by_src s (k_tuple k 0) = h))
   \<and> (\<forall>c k. cores s c = Some k \<and> c \<notin> D \<and> k_status k AND IPS_NAT_DONE_MASK \<noteq> 0 \<longrightarrow>
        nat_loaded s \<and> c \<in> set (bysource s (hash_by_src s (k_tuple k 0))))"

definition children :: "nat set \<Rightarrow> ct_state \<Rightarrow> nat \<Rightarrow> nat set" where
  "children D s c = {j. j \<notin> D \<and> (\<exists>k. cores s j = Some k \<and> k_master k = Some c)}"

text \<open>\<open>D\<close> are the connections on their way out: the last reference is gone, the object is still there.\<close>

definition ref_inv :: "(nat \<Rightarrow> nat) \<Rightarrow> nat set \<Rightarrow> ct_state \<Rightarrow> bool" where
  "ref_inv ext D s \<longleftrightarrow>
     finite (dom (cores s)) \<and> D \<subseteq> dom (cores s)
   \<and> (\<forall>c \<in> D. \<not> linked s c 0 \<and> c \<notin> set (unconfirmed s) \<and> ext c = 0 \<and> children D s c = {})
   \<and> (\<forall>c k. cores s c = Some k \<and> c \<notin> D \<longrightarrow>
        k_use k = int (ext c) + of_bool (linked s c 0) + int (card (children D s c)) \<and> 0 < k_use k
        \<and> (bit (k_status k) 3 \<or> c \<in> set (unconfirmed s)) \<and> (\<forall>m. k_master k = Some m \<longrightarrow> m \<in> dom (cores s) - D))
   \<and> (\<forall>c. cores s c = None \<longrightarrow> ext c = 0) \<and> (\<forall>c. brk s \<le> c \<longrightarrow> cores s c = None)"

text \<open>The tracking data of every connection are well formed and its tuples have inverses.\<close>

definition typ_wf :: "ct_core \<Rightarrow> bool" where
  "typ_wf k \<longleftrightarrow> tcp_wf (k_tcp k) \<and> invertible (fst (k_tuples k)) \<and> invertible (snd (k_tuples k))"

definition typ_inv :: "ct_state \<Rightarrow> bool" where
  "typ_inv s \<longleftrightarrow> (\<forall>c k. cores s c = Some k \<longrightarrow> typ_wf k)"

definition ct_inv :: "(nat \<Rightarrow> nat) \<Rightarrow> nat set \<Rightarrow> ct_state \<Rightarrow> bool" where
  "ct_inv ext D s \<longleftrightarrow> tab_inv s \<and> exp_inv D s \<and> nat_inv D s \<and> ref_inv ext D s \<and> typ_inv s"

lemma nat_invD:
  assumes "nat_inv D s"
  shows "distinct (bysource s h)"
    "c \<in> set (bysource s h) \<Longrightarrow> c \<notin> D"
    "c \<in> set (bysource s h) \<Longrightarrow> \<exists>k. cores s c = Some k \<and> k_status k AND IPS_NAT_DONE_MASK \<noteq> 0 \<and> hash_by_src s (k_tuple k 0) = h"
    "cores s c = Some k \<Longrightarrow> c \<notin> D \<Longrightarrow> k_status k AND IPS_NAT_DONE_MASK \<noteq> 0 \<Longrightarrow> nat_loaded s \<and> c \<in> set (bysource s (hash_by_src s (k_tuple k 0)))"
  using assms unfolding nat_inv_def by blast+

lemma ref_invD:
  assumes "ref_inv ext D s"
  shows "finite (dom (cores s))" "D \<subseteq> dom (cores s)"
    "c \<in> D \<Longrightarrow> \<not> linked s c 0" "c \<in> D \<Longrightarrow> c \<notin> set (unconfirmed s)" "c \<in> D \<Longrightarrow> ext c = 0" "c \<in> D \<Longrightarrow> children D s c = {}"
    "cores s c = Some k \<Longrightarrow> c \<notin> D \<Longrightarrow> k_use k = int (ext c) + of_bool (linked s c 0) + int (card (children D s c))"
    "cores s c = Some k \<Longrightarrow> c \<notin> D \<Longrightarrow> 0 < k_use k"
    "cores s c = Some k \<Longrightarrow> c \<notin> D \<Longrightarrow> bit (k_status k) 3 \<or> c \<in> set (unconfirmed s)"
    "cores s c = Some k \<Longrightarrow> c \<notin> D \<Longrightarrow> k_master k = Some m \<Longrightarrow> m \<in> dom (cores s) - D"
    "cores s c = None \<Longrightarrow> ext c = 0" "brk s \<le> c \<Longrightarrow> cores s c = None"
  using assms unfolding ref_inv_def by blast+

lemma ct_invD: "ct_inv ext D s \<Longrightarrow> tab_inv s" "ct_inv ext D s \<Longrightarrow> exp_inv D s" "ct_inv ext D s \<Longrightarrow> nat_inv D s" "ct_inv ext D s \<Longrightarrow> ref_inv ext D s"
  "ct_inv ext D s \<Longrightarrow> typ_inv s"
  by (simp_all add: ct_inv_def)

lemma typ_inv_same: "cores s' = cores s \<Longrightarrow> typ_inv s \<Longrightarrow> typ_inv s'"
  by (simp add: typ_inv_def)

lemma typ_inv_upd: "cores s' = (cores s)(c \<mapsto> k) \<Longrightarrow> typ_inv s \<Longrightarrow> typ_wf k \<Longrightarrow> typ_inv s'"
  by (simp add: typ_inv_def)

lemma typ_inv_del: "cores s' = (cores s)(c := None) \<Longrightarrow> typ_inv s \<Longrightarrow> typ_inv s'"
  by (simp add: typ_inv_def)

lemma typ_invD:
  assumes "typ_inv s" "cts s c = Some ct"
  shows "tcp_wf (tcp ct)" "invertible (fst (tuplehash ct))" "invertible (snd (tuplehash ct))"
proof -
  have "cores s c = Some (core ct)" using assms(2) by (simp add: cores_def)
  then have "typ_wf (core ct)" using assms(1) unfolding typ_inv_def by blast
  then show "tcp_wf (tcp ct)" "invertible (fst (tuplehash ct))" "invertible (snd (tuplehash ct))" by (simp_all add: typ_wf_def)
qed

lemma ct_inv_live: "ct_inv ext D s \<Longrightarrow> 0 < ext c \<Longrightarrow> \<exists>ct. cts s c = Some ct \<and> c \<notin> D"
  using ref_invD(5,11) [OF ct_invD(4)] by (metis cores_def less_irrefl not_None_eq option.map(1))

text \<open>All but the cores: what the invariants read of the rest of the state.\<close>

definition shell :: "ct_state \<Rightarrow> ct_state \<Rightarrow> bool" where
  "shell s s' \<longleftrightarrow> hash s' = hash s \<and> unconfirmed s' = unconfirmed s \<and> htable_size s' = htable_size s
     \<and> hash_rnd s' = hash_rnd s \<and> rnd_initted s' = rnd_initted s \<and> bysource s' = bysource s \<and> nat_loaded s' = nat_loaded s
     \<and> nat_htable_size s' = nat_htable_size s \<and> brk s' = brk s"

lemma hash_by_src_cong: "nat_htable_size s' = nat_htable_size s \<Longrightarrow> hash_by_src s' = hash_by_src s"
  by (simp add: hash_by_src_def fun_eq_iff)

lemma shell_cong:
  assumes "shell s s'"
  shows "hash s' = hash s" "unconfirmed s' = unconfirmed s" "hash_conntrack s' = hash_conntrack s" "linked s' = linked s"
    "hash_by_src s' = hash_by_src s" "bysource s' = bysource s" "brk s' = brk s" "nat_loaded s' = nat_loaded s"
    "rnd_initted s' = rnd_initted s"
  using assms hash_conntrack_cong [of s' s] linked_cong [of s' s] hash_by_src_cong [of s' s] by (simp_all add: shell_def)

lemma shell_refl [simp]: "shell s s"
  by (simp add: shell_def)

lemma exp_frame_shell: "exp_frame s s' \<Longrightarrow> shell s s'"
  using exp_frame_same [of s s'] by (simp add: shell_def same_table_def)

lemma children_cong: "cores s' = cores s \<Longrightarrow> children D s' = children D s"
  by (simp add: children_def fun_eq_iff)

text \<open>A change of one core that keeps what the table sees of it.\<close>

lemma tab_inv_core:
  assumes "tab_inv s" "shell s s'" "cores s' = (cores s)(c \<mapsto> k')" "cores s c = Some k"
    and "linked s c 0 \<Longrightarrow> k_tuples k' = k_tuples k" "bit (k_status k') 3 = bit (k_status k) 3" "k_pending k' \<Longrightarrow> linked s c 0"
  shows "tab_inv s'"
proof -
  have t: "k_tuple k' d' = k_tuple k d'" if "linked s c d" for d d'
    using assms(5) linked_both [OF assms(1) that] by (simp add: k_tuple_def)
  have c: "\<exists>k0. cores s j = Some k0 \<and> k_tuple kk = k_tuple k0"
    if "cores s' j = Some kk" "linked s j d" for j kk d using that assms(3,4) t [of d] by (auto split: if_splits simp: fun_eq_iff)
  note I = tab_invD [OF assms(1)] and S = shell_cong [OF assms(2)]
  show ?thesis
    unfolding tab_inv_def S
  proof (intro conjI allI ballI impI)
    fix h a d assume m: "(a, d) \<in> set (hash s h)"
    show "d = 0 \<or> d = 1" by (rule I(2) [OF m])
    have l: "linked s a d" using m by (auto simp: linked_def)
    show "\<exists>k. cores s' a = Some k \<and> bit (k_status k) 3 \<and> hash_conntrack s (k_tuple k d) = h"
      using I(3) [OF m] assms(3,4,6) t [of d] l by (auto split: if_splits)
  next
    fix a d a' d' ka ka'
    assume "linked s a d \<and> linked s a' d' \<and> cores s' a = Some ka \<and> cores s' a' = Some ka'
      \<and> ip_ct_tuple_equal (k_tuple ka d) (k_tuple ka' d')"
    moreover from this obtain k0 k0' where "cores s a = Some k0" "k_tuple ka = k_tuple k0" "cores s a' = Some k0'" "k_tuple ka' = k_tuple k0'"
      using c by blast
    ultimately show "a = a'" using I(5) [of a d a' d'] by simp
  next
    fix a ka assume "cores s' a = Some ka \<and> k_pending ka"
    then show "linked s a 0" using I(6) assms(3,7) by (auto split: if_splits)
  next
    fix a assume "a \<in> set (unconfirmed s)"
    then show "\<exists>k. cores s' a = Some k \<and> \<not> bit (k_status k) 3" using I(8) [of a] assms(3,4,6) by (auto split: if_splits)
  next
    show "rnd_initted s \<or> (\<forall>j. cores s' j = None)" 
    proof (cases "rnd_initted s")
      case False
      then have "cores s j = None" for j using I(9) [of j] by (cases "cores s j") auto
      then show ?thesis using assms by auto
    qed simp
  qed (rule I(1) I(4) I(7))+
qed

lemma nat_inv_core:
  assumes "nat_inv D s" "shell s s'" "cores s' = (cores s)(c \<mapsto> k')" "cores s c = Some k"
    and "fst (k_tuples k') = fst (k_tuples k)" "k_status k' AND IPS_NAT_DONE_MASK = k_status k AND IPS_NAT_DONE_MASK"
  shows "nat_inv D s'"
proof -
  have t: "k_tuple k' 0 = k_tuple k 0" using assms(5) by (simp add: k_tuple_def)
  note I = nat_invD [OF assms(1)]
  show ?thesis
    unfolding nat_inv_def shell_cong [OF assms(2)]
  proof (intro conjI allI impI)
    fix h a assume "a \<in> set (bysource s h)"
    then show "a \<notin> D" "\<exists>k. cores s' a = Some k \<and> k_status k AND IPS_NAT_DONE_MASK \<noteq> 0 \<and> hash_by_src s (k_tuple k 0) = h"
      using I(2) I(3) [of a h] assms(3,4,6) t by (auto split: if_splits)
  next
    fix a ka assume "cores s' a = Some ka \<and> a \<notin> D \<and> k_status ka AND IPS_NAT_DONE_MASK \<noteq> 0"
    then show "nat_loaded s" "a \<in> set (bysource s (hash_by_src s (k_tuple ka 0)))"
      using I(4) [of a] assms(3,4,6) t by (auto split: if_splits)
  qed (rule I(1))
qed

lemma nat_inv_cong:
  assumes "nat_inv D s" "bysource s' = bysource s" "nat_loaded s' = nat_loaded s" "nat_htable_size s' = nat_htable_size s" "cores s' = cores s"
  shows "nat_inv D s'"
  using assms(1) unfolding nat_inv_def assms(2,3,5) hash_by_src_cong [OF assms(4)] .

lemma children_core:
  assumes "cores s' = (cores s)(c \<mapsto> k')" "cores s c = Some k" "k_master k' = k_master k"
  shows "children D s' = children D s"
  using assms by (auto simp: children_def fun_eq_iff)

text \<open>Taking and dropping a reference that is not the last one.\<close>

lemma ct_inv_use:
  assumes i: "ct_inv ext D s" and ct: "cts s c = Some ct" "c \<notin> D" and u: "int e = int (ext c) + u" "0 < ct_use ct + u"
  shows "ct_inv (ext(c := e)) D (s\<lparr>cts := (cts s)(c \<mapsto> ct\<lparr>ct_use := ct_use ct + u\<rparr>)\<rparr>)"
proof -
  let ?s = "s\<lparr>cts := (cts s)(c \<mapsto> ct\<lparr>ct_use := ct_use ct + u\<rparr>)\<rparr>"
  let ?k = "core (ct\<lparr>ct_use := ct_use ct + u\<rparr>)"
  have sh: "shell s ?s" by (simp add: shell_def)
  have co: "cores ?s = (cores s)(c \<mapsto> ?k)" by (simp add: ct_simps)
  have k: "cores s c = Some (core ct)" using ct(1) by (simp add: cores_def)
  have tab: "tab_inv ?s"
    using tab_inv_core [OF ct_invD(1) [OF i] sh co k] tab_invD(6) [OF ct_invD(1) [OF i] k] by simp
  have nat: "nat_inv D ?s"
    using nat_inv_core [OF ct_invD(3) [OF i] sh co k] by simp
  have ow: "owned ?s = owned s" by (simp add: owned_def fun_eq_iff)
  have exp: "exp_inv D ?s"
    unfolding exp_inv_def ow
  proof (intro conjI)
    show "\<forall>a ka. cts ?s a = Some ka \<longrightarrow> expecting ka = of_nat (length (owned s a))"
      using exp_invD(4) [OF ct_invD(2) [OF i]] ct(1) by (auto split: if_splits)
    have "dom (cts ?s) = dom (cts s)" using ct(1) by auto
    then show "\<forall>e\<in>set (expect_list ?s). \<exists>x. exps ?s e = Some x \<and> exp_pending x \<and> 2 \<le> exp_use x \<and> exp_master x \<in> dom (cts ?s) - D"
      using exp_invD(2) [OF ct_invD(2) [OF i]] by simp
  qed (use exp_invD [OF ct_invD(2) [OF i]] in simp_all)
  have ch: "children D ?s = children D s" using children_core [OF co k] by simp
  note R = ref_invD [OF ct_invD(4) [OF i]]
  have "ref_inv (ext(c := e)) D ?s"
    unfolding ref_inv_def ch shell_cong [OF sh]
  proof (intro conjI allI ballI impI)
    fix a ka assume a: "cores ?s a = Some ka \<and> a \<notin> D"
    have ka: "a = c \<and> ka = ?k \<or> a \<noteq> c \<and> cores s a = Some ka" using a unfolding co by (auto split: if_splits)
    have rc: "ct_use ct = int (ext c) + of_bool (linked s c 0) + int (card (children D s c))"
      using R(7) [OF k ct(2)] by simp
    show "k_use ka = int ((ext(c := e)) a) + of_bool (linked s a 0) + int (card (children D s a))"
      using a ka R(7) [of a ka] rc u(1) by auto
    show "0 < k_use ka" using a ka R(8) [of a ka] u(2) by auto
    show "bit (k_status ka) 3 \<or> a \<in> set (unconfirmed s)" using a ka R(9) [of a ka] R(9) [OF k ct(2)] by auto
    show "m \<in> dom (cores ?s) - D" if "k_master ka = Some m" for m
      using a ka R(10) [of a ka m] R(10) [OF k ct(2), of m] that co by auto
  next
    have "dom (cores ?s) = dom (cores s)" using k unfolding co by auto
    then show "finite (dom (cores ?s))" "D \<subseteq> dom (cores ?s)" using R(1,2) by simp_all
    fix a assume "a \<in> D"
    then show "\<not> linked s a 0" "a \<notin> set (unconfirmed s)" "(ext(c := e)) a = 0" "children D s a = {}"
      using R(3-6) ct(2) by auto
  next
    fix a assume "cores ?s a = None" then show "(ext(c := e)) a = 0" using R(11) unfolding co by (auto split: if_splits)
  next
    fix a assume "brk s \<le> a" then show "cores ?s a = None" using R(12) k unfolding co by (auto split: if_splits)
  qed
  moreover have "typ_inv ?s"
    by (rule typ_inv_upd [OF co ct_invD(5) [OF i]]) (use typ_invD [OF ct_invD(5) [OF i] ct(1)] in \<open>simp add: typ_wf_def\<close>)
  ultimately show ?thesis using tab exp nat by (simp add: ct_inv_def)
qed


subsection \<open>The last reference\<close>

text \<open>What an operation that may destroy connections keeps: the chains, and of every connection that is left all but
  its reference count.\<close>

definition same_core :: "ct_core \<Rightarrow> ct_core \<Rightarrow> bool" where
  "same_core k k' \<longleftrightarrow> k_tuples k' = k_tuples k \<and> k_status k' = k_status k \<and> k_pending k' = k_pending k \<and> k_master k' = k_master k
     \<and> k_tcp k' = k_tcp k"

definition same_chains :: "ct_state \<Rightarrow> ct_state \<Rightarrow> bool" where
  "same_chains s s' \<longleftrightarrow> hash s' = hash s \<and> htable_size s' = htable_size s \<and> hash_rnd s' = hash_rnd s \<and> rnd_initted s' = rnd_initted s
     \<and> nat_htable_size s' = nat_htable_size s \<and> nat_loaded s' = nat_loaded s \<and> brk s' = brk s
     \<and> helpers s' = helpers s \<and> hlps s' = hlps s"

definition keeps :: "ct_state \<Rightarrow> ct_state \<Rightarrow> bool" where
  "keeps s s' \<longleftrightarrow> same_chains s s'
     \<and> (\<forall>j k'. cores s' j = Some k' \<longrightarrow> (\<exists>k. cores s j = Some k \<and> same_core k k'))"

lemma same_core_refl [simp]: "same_core k k"
  by (simp add: same_core_def)

lemma same_core_trans: "same_core a b \<Longrightarrow> same_core b c \<Longrightarrow> same_core a c"
  by (simp add: same_core_def)

lemma keeps_refl [simp]: "keeps s s"
  by (simp add: keeps_def same_chains_def)

lemma keepsD: "keeps s s' \<Longrightarrow> cores s' j = Some k' \<Longrightarrow> \<exists>k. cores s j = Some k \<and> same_core k k'"
  by (simp add: keeps_def)

lemma keeps_trans:
  assumes "keeps s s'" "keeps s' s''"
  shows "keeps s s''"
proof -
  have "\<exists>k. cores s j = Some k \<and> same_core k k''" if "cores s'' j = Some k''" for j k''
    using keepsD [OF assms(2) that] keepsD [OF assms(1), of j] same_core_trans by metis
  then show ?thesis using assms by (simp add: keeps_def same_chains_def)
qed

text \<open>Forgetting a connection on its way out.\<close>

lemma tab_inv_forget:
  assumes "tab_inv s" "\<not> linked s c 0" "c \<notin> set (unconfirmed s)"
    and "hash s' = hash s" "hash_conntrack s' = hash_conntrack s" "unconfirmed s' = unconfirmed s"
    and "rnd_initted s' = rnd_initted s" "cores s' = (cores s)(c := None)"
  shows "tab_inv s'"
proof -
  note I = tab_invD [OF assms(1)]
  have l: "linked s' = linked s" by (rule linked_cong [OF assms(4)])
  have nc: "a \<noteq> c" if "(a, d) \<in> set (hash s h)" for a d h
    using that assms(1,2) linked_both [of s a d] by (auto simp: linked_def)
  show ?thesis
    unfolding tab_inv_def l assms(4-7)
  proof (intro conjI allI ballI impI)
    fix h a d assume m: "(a, d) \<in> set (hash s h)"
    show "d = 0 \<or> d = 1" by (rule I(2) [OF m])
    show "\<exists>k. cores s' a = Some k \<and> bit (k_status k) 3 \<and> hash_conntrack s (k_tuple k d) = h"
      using I(3) [OF m] nc [OF m] assms(8) by auto
  next
    fix a d a' d' ka ka'
    assume "linked s a d \<and> linked s a' d' \<and> cores s' a = Some ka \<and> cores s' a' = Some ka'
      \<and> ip_ct_tuple_equal (k_tuple ka d) (k_tuple ka' d')"
    then show "a = a'" using I(5) [of a d a' d' ka ka'] assms(8) by (auto split: if_splits)
  next
    fix a ka assume "cores s' a = Some ka \<and> k_pending ka"
    then show "linked s a 0" using I(6) [of a ka] assms(8) by (auto split: if_splits)
  next
    fix a assume "a \<in> set (unconfirmed s)"
    then show "\<exists>k. cores s' a = Some k \<and> \<not> bit (k_status k) 3" using I(8) [of a] assms(3,8) by (auto split: if_splits)
  next
    show "rnd_initted s \<or> (\<forall>j. cores s' j = None)" 
    proof (cases "rnd_initted s")
      case False
      then have "cores s j = None" for j using I(9) [of j] by (cases "cores s j") auto
      then show ?thesis using assms by auto
    qed simp
  qed (rule I(1) I(4) I(7))+
qed

lemma free_ok:
  assumes i: "ct_inv ext (insert c D) s" and c: "c \<notin> D"
  shows "\<exists>s'. ip_conntrack_free c s = Some s' \<and> ct_inv ext D s' \<and> cores s' = (cores s)(c := None) \<and> keeps s s'"
proof -
  note R = ref_invD [OF ct_invD(4) [OF i]] and X = exp_invD [OF ct_invD(2) [OF i]] and N = nat_invD [OF ct_invD(3) [OF i]]
  obtain ct where ct: "cts s c = Some ct" using R(2) by (auto simp: dom_cores)
  define s' where "s' = s\<lparr>ct_count := ct_count s - 1, cts := (cts s)(c := None)\<rparr>"
  have run: "ip_conntrack_free c s = Some s'" using ct by (simp add: ip_conntrack_free_def s'_def)
  have sh: "shell s s'" by (simp add: shell_def s'_def)
  have co: "cores s' = (cores s)(c := None)" by (auto simp: cores_def s'_def)
  note S = shell_cong [OF sh]
  have tab: "tab_inv s'"
    by (rule tab_inv_forget [OF ct_invD(1) [OF i] R(3) R(4) S(1,3,2,9) co]) simp_all
  have nat: "nat_inv D s'"
    unfolding nat_inv_def S
  proof (intro conjI allI impI)
    fix h a assume a: "a \<in> set (bysource s h)"
    show "a \<notin> D" using N(2) [OF a] by simp
    show "\<exists>k. cores s' a = Some k \<and> k_status k AND IPS_NAT_DONE_MASK \<noteq> 0 \<and> hash_by_src s (k_tuple k 0) = h"
      using N(2,3) [OF a] co by auto
  next
    fix a ka assume "cores s' a = Some ka \<and> a \<notin> D \<and> k_status ka AND IPS_NAT_DONE_MASK \<noteq> 0"
    then show "nat_loaded s" "a \<in> set (bysource s (hash_by_src s (k_tuple ka 0)))"
      using N(4) [of a ka] co by (auto split: if_splits)
  qed (rule N(1))
  have ow: "owned s' = owned s" by (simp add: owned_def s'_def fun_eq_iff)
  have exp: "exp_inv D s'"
    unfolding exp_inv_def ow
  proof (intro conjI allI ballI impI)
    fix e assume "e \<in> set (expect_list s')"
    then show "\<exists>x. exps s' e = Some x \<and> exp_pending x \<and> 2 \<le> exp_use x \<and> exp_master x \<in> dom (cts s') - D"
      using X(2) [of e] by (auto simp: s'_def)
  next
    fix a ka assume "cts s' a = Some ka"
    then show "expecting ka = of_nat (length (owned s a))" using X(4) [of a ka] by (auto simp: s'_def split: if_splits)
  qed (use X(1,3,5) in \<open>simp_all add: s'_def\<close>)
  have ch: "children D s' a = children (insert c D) s a" for a
    using co by (auto simp: children_def split: if_splits)
  have "ref_inv ext D s'"
    unfolding ref_inv_def ch S
  proof (intro conjI allI ballI impI)
    have d: "dom (cores s') = dom (cores s) - {c}" unfolding co by auto
    show "finite (dom (cores s'))" "D \<subseteq> dom (cores s')" using R(1,2) c unfolding d by auto
    fix a assume "a \<in> D"
    then show "\<not> linked s a 0" "a \<notin> set (unconfirmed s)" "ext a = 0" "children (insert c D) s a = {}"
      using R(3-6) by auto
  next
    fix a ka assume "cores s' a = Some ka \<and> a \<notin> D"
    then have a: "cores s a = Some ka" "a \<notin> insert c D" unfolding co by (auto split: if_splits)
    show "k_use ka = int (ext a) + of_bool (linked s a 0) + int (card (children (insert c D) s a))" by (rule R(7) [OF a])
    show "0 < k_use ka" by (rule R(8) [OF a])
    show "bit (k_status ka) 3 \<or> a \<in> set (unconfirmed s)" by (rule R(9) [OF a])
    show "m \<in> dom (cores s') - D" if "k_master ka = Some m" for m using R(10) [OF a that] unfolding co by auto
  next
    fix a assume "cores s' a = None" then show "ext a = 0" using R(5) [of c] R(11) [of a] unfolding co by (auto split: if_splits)
  next
    fix a assume "brk s \<le> a" then show "cores s' a = None" using R(12) [of a] unfolding co by simp
  qed
  moreover have "keeps s s'"
    unfolding keeps_def co by (auto simp: s'_def same_chains_def split: if_splits intro: same_core_refl)
  moreover have "typ_inv s'" by (rule typ_inv_del [OF co ct_invD(5) [OF i]])
  ultimately show ?thesis using run tab nat exp co by (auto simp: ct_inv_def)
qed

text \<open>The steps of \<open>destroy_conntrack\<close>.\<close>

lemma exp_inv_upd:
  assumes "exp_inv D s" "cts s c = Some ct" "cts s' = (cts s)(c \<mapsto> ct')" "expecting ct' = expecting ct"
    and "exps s' = exps s" "expect_list s' = expect_list s"
  shows "exp_inv D s'"
proof -
  have ow: "owned s' = owned s" using assms(5,6) by (simp add: owned_def fun_eq_iff)
  have d: "dom (cts s') = dom (cts s)" using assms(2,3) by auto
  note X = exp_invD [OF assms(1)]
  show ?thesis
    unfolding exp_inv_def ow d assms(5,6)
    using X(1,2,3,5) X(4) [of c] X(4) assms(2-4) by (auto split: if_splits)
qed

lemma nat_cleanup_ok:
  assumes i: "nat_inv D s" and ct: "cts s c = Some ct" "c \<notin> D"
  shows "\<exists>b. (if nat_loaded s then ip_nat_cleanup_conntrack c s else Some s) = Some (s\<lparr>bysource := b\<rparr>)
    \<and> nat_inv (insert c D) (s\<lparr>bysource := b\<rparr>)"
proof -
  let ?h = "hash_by_src s (tuple_at ct 0)"
  let ?b = "\<lambda>h. removeAll c (bysource s h)"
  note N = nat_invD [OF i]
  have k: "cores s c = Some (core ct)" using ct(1) by (simp add: cores_def)
  have out: "c \<notin> set (bysource s h)" if "h \<noteq> ?h \<or> status ct AND IPS_NAT_DONE_MASK = 0" for h
    using N(3) [of c h] k that by auto
  have b: "?b = (if status ct AND IPS_NAT_DONE_MASK = 0 then bysource s else (bysource s)(?h := remove1 c (bysource s ?h)))"
    using out N(1) by (auto simp: fun_eq_iff removeAll_id distinct_remove1_removeAll)
  have "(if nat_loaded s then ip_nat_cleanup_conntrack c s else Some s) = Some (s\<lparr>bysource := ?b\<rparr>)"
    unfolding b using ct N(4) [OF k ct(2)] by (auto simp: ip_nat_cleanup_conntrack_def Let_def)
  moreover have "nat_inv (insert c D) (s\<lparr>bysource := ?b\<rparr>)"
  proof -
    have co: "cores (s\<lparr>bysource := ?b\<rparr>) = cores s" and hb: "hash_by_src (s\<lparr>bysource := ?b\<rparr>) = hash_by_src s"
      by (simp_all add: cores_def fun_eq_iff hash_by_src_def)
    show ?thesis
      unfolding nat_inv_def co hb
    proof (intro conjI allI impI)
      fix h a assume "a \<in> set (bysource (s\<lparr>bysource := ?b\<rparr>) h)"
      then have a: "a \<in> set (bysource s h)" "a \<noteq> c" by auto
      show "a \<notin> insert c D" using N(2) [OF a(1)] a(2) by simp
      show "\<exists>k. cores s a = Some k \<and> k_status k AND IPS_NAT_DONE_MASK \<noteq> 0 \<and> hash_by_src s (k_tuple k 0) = h" by (rule N(3) [OF a(1)])
    next
      fix a ka assume "cores s a = Some ka \<and> a \<notin> insert c D \<and> k_status ka AND IPS_NAT_DONE_MASK \<noteq> 0"
      then show "nat_loaded (s\<lparr>bysource := ?b\<rparr>)" "a \<in> set (bysource (s\<lparr>bysource := ?b\<rparr>) (hash_by_src s (k_tuple ka 0)))"
        using N(4) [of a ka] by auto
    qed (use N(1) in \<open>simp add: distinct_removeAll\<close>)
  qed
  ultimately show ?thesis by blast
qed

lemma unconfirmed_ok:
  assumes i: "tab_inv s" and ct: "cts s c = Some ct" "is_confirmed ct \<or> c \<in> set (unconfirmed s)"
  defines "u \<equiv> s\<lparr>unconfirmed := removeAll c (unconfirmed s)\<rparr>"
  shows "(if is_confirmed ct then Some s else list_del_unconfirmed c s) = Some u" "tab_inv u"
proof -
  note I = tab_invD [OF i]
  have "removeAll c (unconfirmed s) = unconfirmed s" if "is_confirmed ct"
    using I(8) [of c] ct that by (auto simp: cores_def is_confirmed_iff intro: removeAll_id)
  then show "(if is_confirmed ct then Some s else list_del_unconfirmed c s) = Some u"
    using ct(2) I(7) by (auto simp: list_del_unconfirmed_def u_def distinct_remove1_removeAll)
  have S: "hash u = hash s" "hash_conntrack u = hash_conntrack s" "linked u = linked s" "rnd_initted u = rnd_initted s" "cores u = cores s"
    "unconfirmed u = removeAll c (unconfirmed s)"
    by (simp_all add: u_def hash_conntrack_def linked_def cores_def fun_eq_iff)
  show "tab_inv u"
    using i unfolding tab_inv_def S by (elim conjE, intro conjI) (assumption | simp add: distinct_removeAll)+
qed

definition retire :: "nat \<Rightarrow> nat option \<Rightarrow> (nat \<Rightarrow> nat) \<Rightarrow> nat \<Rightarrow> nat" where
  "retire c m ext = (case m of None \<Rightarrow> ext(c := 0) | Some mc \<Rightarrow> (ext(c := 0))(mc := ext mc + 1))"

lemma ref_inv_retire:
  assumes r: "ref_inv ext D s" and k: "cores s c = Some k" "c \<notin> D" "\<not> linked s c 0" "children D s c = {}"
    and s': "hash s' = hash s" "brk s' = brk s" "unconfirmed s' = removeAll c (unconfirmed s)"
      "cores s' = (cores s)(c \<mapsto> k')" "k_master k' = k_master k"
  shows "ref_inv (retire c (k_master k) ext) (insert c D) s'"
proof -
  note R = ref_invD [OF r]
  have l: "linked s' = linked s" by (rule linked_cong [OF s'(1)])
  have ch: "children (insert c D) s' a = children D s a - {c}" for a
    using k s'(4) by (auto simp: children_def split: if_splits)
  have cc: "c \<in> children D s a \<longleftrightarrow> k_master k = Some a" for a
    using k by (auto simp: children_def)
  have m: "mc \<noteq> c \<and> mc \<notin> D \<and> mc \<in> dom (cores s)" if "k_master k = Some mc" for mc
    using cc [of c] k R(10) [OF k(1,2) that] that by auto
  have fin: "finite (children D s a)" for a
    by (rule finite_subset [OF _ R(1)]) (auto simp: children_def)
  show ?thesis
    unfolding ref_inv_def ch l s'(2,3)
  proof (intro conjI allI ballI impI)
    have d: "dom (cores s') = dom (cores s)" using k(1) unfolding s'(4) by auto
    show "finite (dom (cores s'))" "insert c D \<subseteq> dom (cores s')" using R(1,2) k(1) unfolding d by auto
    fix a assume a: "a \<in> insert c D"
    show "\<not> linked s a 0" "a \<notin> set (removeAll c (unconfirmed s))" "children D s a - {c} = {}"
      using a k R(3,4,6) by auto
    show "retire c (k_master k) ext a = 0"
      using a m R(5) by (auto simp: retire_def split: option.splits)
  next
    fix a ka assume "cores s' a = Some ka \<and> a \<notin> insert c D"
    then have a: "cores s a = Some ka" "a \<notin> D" "a \<noteq> c" unfolding s'(4) by auto
    have n: "int (card (children D s a - {c})) = int (card (children D s a)) - of_bool (k_master k = Some a)"
      using card_Suc_Diff1 [OF fin, of c a] cc [of a] by (cases "k_master k = Some a") auto
    show "k_use ka = int (retire c (k_master k) ext a) + of_bool (linked s a 0) + int (card (children D s a - {c}))"
      using R(7) [OF a(1,2)] a(3) unfolding n by (auto simp: retire_def split: option.splits)
    show "0 < k_use ka" by (rule R(8) [OF a(1,2)])
    show "bit (k_status ka) 3 \<or> a \<in> set (removeAll c (unconfirmed s))" using R(9) [OF a(1,2)] a(3) by auto
    show "mm \<in> dom (cores s') - insert c D" if "k_master ka = Some mm" for mm
      using R(10) [OF a(1,2) that] k(4) a that unfolding s'(4) by (auto simp: children_def)
  next
    fix a assume "cores s' a = None"
    then have a: "cores s a = None" "a \<noteq> c" unfolding s'(4) by (auto split: if_splits)
    then show "retire c (k_master k) ext a = 0" using R(11) [OF a(1)] m by (auto simp: retire_def split: option.splits)
  next
    fix a assume "brk s \<le> a" then show "cores s' a = None" using R(12) [of a] k(1) unfolding s'(4) by auto
  qed
qed

lemma dying_bit: "set_bit 9 w AND 0x180 = w AND (0x180 :: u32)" "bit (set_bit 9 w) 3 = bit (w :: u32) 3"
proof -
  have "\<not> bit (0x180 :: u32) 9" by code_simp
  then show "set_bit 9 w AND 0x180 = w AND (0x180 :: u32)" by (intro bit_eqI) (auto simp: bit_simps)
qed (simp add: bit_simps)

lemma destroy_start_ok:
  assumes i: "ct_inv ext D s" and ct: "cts s c = Some ct" "c \<notin> D" "\<not> linked s c 0" "children D s c = {}"
  shows "\<exists>s' ct'. destroy_start c (s\<lparr>cts := (cts s)(c \<mapsto> ct\<lparr>ct_use := u\<rparr>)\<rparr>) = Some (master ct, s')
    \<and> ct_inv (retire c (master ct) ext) (insert c D) s' \<and> cores s' = (cores s)(c \<mapsto> ct') \<and> same_chains s s'"
proof -
  define ct1 where "ct1 = set_status IPS_DYING_BIT (ct\<lparr>ct_use := u\<rparr>)"
  define s1 where "s1 = s\<lparr>cts := (cts s)(c \<mapsto> ct1)\<rparr>"
  have k: "cores s c = Some (core ct)" using ct(1) by (simp add: cores_def)
  have sh: "shell s s1" by (simp add: shell_def s1_def)
  have co: "cores s1 = (cores s)(c \<mapsto> core ct1)" by (auto simp: cores_def s1_def)
  have f: "tuplehash ct1 = tuplehash ct" "master ct1 = master ct" "pending ct1 = pending ct" "expecting ct1 = expecting ct"
    "status ct1 = set_bit 9 (status ct)" "tcp ct1 = tcp ct"
    by (simp_all add: ct1_def set_status_def)
  have tab1: "tab_inv s1"
    using tab_inv_core [OF ct_invD(1) [OF i] sh co k] tab_invD(6) [OF ct_invD(1) [OF i] k] by (simp add: f dying_bit)
  have nat1: "nat_inv D s1"
    using nat_inv_core [OF ct_invD(3) [OF i] sh co k] by (simp add: f dying_bit)
  have exp1: "exp_inv D s1"
    by (rule exp_inv_upd [OF ct_invD(2) [OF i] ct(1), of _ ct1]) (simp_all add: s1_def f)
  obtain b where b: "(if nat_loaded s1 then ip_nat_cleanup_conntrack c s1 else Some s1) = Some (s1\<lparr>bysource := b\<rparr>)"
    "nat_inv (insert c D) (s1\<lparr>bysource := b\<rparr>)"
    using nat_cleanup_ok [OF nat1 _ ct(2), of ct1] by (auto simp: s1_def)
  let ?s2 = "s1\<lparr>bysource := b\<rparr>"
  have "exp_inv D ?s2"
    by (rule exp_inv_upd [OF exp1, of c ct1 _ ct1]) (simp_all add: s1_def)
  then obtain s3 where s3: "ip_ct_remove_expectations c ?s2 = Some s3" "exp_frame ?s2 s3" "exp_inv (insert c D) s3"
    using remove_expectations_ok [of D ?s2 c] by (auto simp: s1_def)
  note F = exp_frame_same [OF s3(2)]
  have st: "same_table s1 ?s2" by (simp add: same_table_def cores_def fun_eq_iff)
  have tab3: "tab_inv s3" using tab1 same_table_tab_inv [OF F(1)] same_table_tab_inv [OF st] by simp
  have co3: "cores s3 = (cores s)(c \<mapsto> core ct1)" using F(6) st co by (simp add: same_table_def)
  obtain ct3 where ct3: "cts s3 c = Some ct3" "core ct3 = core ct1" using fun_cong [OF co3, of c] by (auto simp: cores_Some)
  have f3: "status ct3 = status ct1" "master ct3 = master ct" by (metis core_sel(2) ct3(2)) (metis core_sel(4) ct3(2) f(2))
  have uc: "unconfirmed s3 = unconfirmed s" using F(1) by (simp add: same_table_def s1_def)
  have cf: "is_confirmed ct3 \<or> c \<in> set (unconfirmed s3)"
    using ref_invD(9) [OF ct_invD(4) [OF i] k ct(2)] by (simp add: uc is_confirmed_iff f3 f dying_bit)
  let ?s4 = "s3\<lparr>unconfirmed := removeAll c (unconfirmed s3)\<rparr>"
  note U = unconfirmed_ok [OF tab3 ct3(1) cf]
  have run: "destroy_start c (s\<lparr>cts := (cts s)(c \<mapsto> ct\<lparr>ct_use := u\<rparr>)\<rparr>) = Some (master ct, ?s4)"
  proof -
    have "upd_ct c (set_status IPS_DYING_BIT) (s\<lparr>cts := (cts s)(c \<mapsto> ct\<lparr>ct_use := u\<rparr>)\<rparr>) = Some s1"
      by (simp add: upd_ct_def s1_def ct1_def)
    then show ?thesis by (simp add: destroy_start_def b(1) s3(1) ct3(1) U(1) f3(2))
  qed
  have co4: "cores ?s4 = (cores s)(c \<mapsto> core ct1)" unfolding co3 [symmetric] by (simp add: cores_def fun_eq_iff)
  have "exp_inv (insert c D) ?s4" by (rule exp_inv_upd [OF s3(3) ct3(1), of _ ct3]) (simp_all add: ct3(1) fun_upd_idem)
  moreover have "nat_inv (insert c D) ?s4"
    by (rule nat_inv_cong [OF b(2)]) (use F(2-4,6) co3 co4 in simp_all)
  moreover have "ref_inv (retire c (master ct) ext) (insert c D) ?s4"
  proof -
    have "hash ?s4 = hash s" "brk ?s4 = brk s" using F(1,5) by (simp_all add: same_table_def s1_def)
    then show ?thesis using ref_inv_retire [OF ct_invD(4) [OF i] k ct(2-4) _ _ _ co4] by (simp add: f uc)
  qed
  moreover have "typ_inv ?s4"
    by (rule typ_inv_upd [OF co4 ct_invD(5) [OF i]]) (use typ_invD [OF ct_invD(5) [OF i] ct(1)] f in \<open>simp add: typ_wf_def\<close>)
  ultimately have "ct_inv (retire c (master ct) ext) (insert c D) ?s4" using U(2) by (simp add: ct_inv_def)
  moreover have "same_chains s ?s4" using F by (simp add: same_table_def same_chains_def s1_def)
  ultimately show ?thesis using run co4 by blast
qed

text \<open>Dropping a reference, the last one included: nothing that is gone is touched, the chain of masters ends, and the
  counts are right afterwards.\<close>

lemma put_ok:
  assumes "ct_inv ext D s" "0 < ext c"
  shows "\<exists>s'. ip_conntrack_put c s = Some s' \<and> ct_inv (ext(c := ext c - 1)) D s' \<and> keeps s s'"
  using assms
proof (induction "card (dom (cores s) - D)" arbitrary: ext D s c rule: less_induct)
  case less
  note i = less.prems(1)
  note R = ref_invD [OF ct_invD(4) [OF i]]
  obtain ct where ct: "cts s c = Some ct" "c \<notin> D" using ct_inv_live [OF less.prems] by blast
  then have k: "cores s c = Some (core ct)" by (simp add: cores_def)
  let ?s1 = "s\<lparr>cts := (cts s)(c \<mapsto> ct\<lparr>ct_use := ct_use ct - 1\<rparr>)\<rparr>"
  have fin: "finite (children D s a)" for a
    by (rule finite_subset [OF _ R(1)]) (auto simp: children_def)
  have run: "ip_conntrack_put c s = (if ct_use ct \<noteq> 1 then Some ?s1 else do {
      (m, s2) \<leftarrow> destroy_start c ?s1;
      case m of None \<Rightarrow> ip_conntrack_free c s2 | Some mc \<Rightarrow> do { s3 \<leftarrow> ip_conntrack_put mc s2; ip_conntrack_free c s3 }})"
    using ct(1) by (subst ip_conntrack_put.simps) (simp add: upd_ct_def)
  show ?case
  proof (cases "ct_use ct = 1")
    case False
    have "ct_inv (ext(c := ext c - 1)) D ?s1"
      using ct_inv_use [OF i ct, of "ext c - 1" "- 1"] R(8) [OF k ct(2)] False less.prems(2) by (simp add: of_nat_diff)
    moreover have "keeps s ?s1"
      using k by (auto simp: keeps_def same_chains_def same_core_def cores_upd)
    ultimately show ?thesis using run False by simp
  next
    case True
    then have "ext c = 1 \<and> \<not> linked s c 0 \<and> card (children D s c) = 0"
      using R(7) [OF k ct(2)] less.prems(2) by (cases "linked s c 0") auto
    then have last: "ext c = 1" "\<not> linked s c 0" "children D s c = {}" using fin [of c] by auto
    obtain s2 k2 where s2: "destroy_start c ?s1 = Some (master ct, s2)" "ct_inv (retire c (master ct) ext) (insert c D) s2"
      "cores s2 = (cores s)(c \<mapsto> k2)" "same_chains s s2"
      using destroy_start_ok [OF i ct last(2,3)] by blast
    have ext0: "ext(c := ext c - 1) = ext(c := 0)" using last(1) by simp
    have fin2: "finite (dom (cores s) - D)" using R(1) by simp
    have less: "card (dom (cores s2) - insert c D) < card (dom (cores s) - D)"
      using s2(3) k ct(2) by (intro psubset_card_mono [OF fin2]) auto
    have frame: "keeps s s'" if "keeps s2 s3" "keeps s3 s'" "cores s' = (cores s3)(c := None)" for s3 s'
      using keeps_trans [OF that(1,2)] s2(3,4) that(3) by (auto simp: keeps_def same_chains_def split: if_splits)
    show ?thesis
    proof (cases "master ct")
      case None
      then show ?thesis
        using free_ok [OF s2(2) ct(2)] run True s2(1) frame [OF keeps_refl] unfolding ext0 by (auto simp: retire_def)
    next
      case (Some mc)
      have mc: "mc \<noteq> c" using last(3) k ct(2) Some by (auto simp: children_def)
      let ?e2 = "retire c (master ct) ext"
      have e: "?e2(mc := ?e2 mc - 1) = ext(c := 0)" "0 < ?e2 mc" using Some mc by (auto simp: retire_def fun_eq_iff)
      obtain s3 where s3: "ip_conntrack_put mc s2 = Some s3" "ct_inv (ext(c := 0)) (insert c D) s3" "keeps s2 s3"
        using less.hyps [OF less s2(2) e(2)] unfolding e(1) by blast
      then show ?thesis
        using free_ok [OF s3(2) ct(2)] run True s2(1) Some frame [OF s3(3)] unfolding ext0 by auto
    qed
  qed
qed

end
