(* ===== verification/Ct_Ops.thy ===== *)
theory Ct_Ops
  imports Ct_Refs
begin

section \<open>The operations keep the invariant\<close>

text \<open>
  Each operation of \<^verbatim>\<open>ip_conntrack_core.c\<close> on a state with \<open>ct_inv\<close>: it returns, that is, it uses no object that
  is gone and unlinks nothing that is not linked, the invariant holds afterwards with the references it
  took or dropped, and lookups change as they should.
\<close>

subsection \<open>Leaving the table\<close>

lemma find_filter: "List.find P (filter Q xs) = List.find (\<lambda>x. Q x \<and> P x) xs"
  by (induction xs) auto

lemma find_stronger: "List.find P xs = Some x \<Longrightarrow> Q x \<Longrightarrow> List.find (\<lambda>x. Q x \<and> P x) xs = Some x"
  by (induction xs) (auto split: if_splits)

lemma find_two:
  "(P a \<Longrightarrow> A) \<Longrightarrow> (P b \<Longrightarrow> B) \<Longrightarrow> List.find P ((if A then [a] else []) @ (if B then [b] else []) @ xs)
     = (if P a then Some a else if P b then Some b else List.find P xs)"
  by auto

lemma remove1_filter: "distinct xs \<Longrightarrow> remove1 y xs = filter (\<lambda>x. x \<noteq> y) xs"
  by (induction xs) (auto intro!: filter_True [symmetric])

definition unlinked :: "nat \<Rightarrow> ct_state \<Rightarrow> ct_state" where
  "unlinked c s = s\<lparr>hash := \<lambda>h. filter (\<lambda>n. fst n \<noteq> c) (hash s h)\<rparr>"

lemma unlinked_sel [simp]: "cores (unlinked c s) = cores s" "hash_conntrack (unlinked c s) = hash_conntrack s"
  "cts (unlinked c s) = cts s" "exps (unlinked c s) = exps s" "expect_list (unlinked c s) = expect_list s"
  "unconfirmed (unlinked c s) = unconfirmed s" "brk (unlinked c s) = brk s" "bysource (unlinked c s) = bysource s"
  "nat_loaded (unlinked c s) = nat_loaded s" "nat_htable_size (unlinked c s) = nat_htable_size s"
  "rnd_initted (unlinked c s) = rnd_initted s"
  "hash (unlinked c s) h = filter (\<lambda>n. fst n \<noteq> c) (hash s h)"
  "linked (unlinked c s) a d \<longleftrightarrow> linked s a d \<and> a \<noteq> c"
  by (auto simp: unlinked_def cores_def hash_conntrack_def linked_def fun_eq_iff)

lemma tab_inv_unlinked:
  assumes i: "tab_inv s" and c: "\<And>k. cores s c = Some k \<Longrightarrow> \<not> k_pending k"
  shows "tab_inv (unlinked c s)"
proof -
  note I = tab_invD [OF i]
  show ?thesis
    unfolding tab_inv_def unlinked_sel
  proof (intro conjI allI ballI impI)
    show "distinct (filter (\<lambda>n. fst n \<noteq> c) (hash s h))" for h by (simp add: I(1))
    fix h a d assume m: "(a, d) \<in> set (filter (\<lambda>n. fst n \<noteq> c) (hash s h))"
    then show "d = 0 \<or> d = 1" "\<exists>k. cores s a = Some k \<and> bit (k_status k) 3 \<and> hash_conntrack s (k_tuple k d) = h"
      using I(2,3) [of a d h] by simp_all
  next
    fix a ka assume "cores s a = Some ka \<and> k_pending ka"
    then show "linked s a 0" "a \<noteq> c" using I(6) [of a ka] c [of ka] by auto
  next
    show "rnd_initted s \<or> (\<forall>j. cores s j = None)" using I(9) by (metis option.exhaust)
  qed (use I(4,5,7,8) in blast)+
qed

text \<open>A lookup once the connections of \<open>gone\<close> have left.\<close>

definition without :: "nat set \<Rightarrow> (nat \<times> u8) option \<Rightarrow> (nat \<times> u8) option" where
  "without gone r = (case r of None \<Rightarrow> None | Some n \<Rightarrow> if fst n \<in> gone then None else Some n)"

lemma without_simps [simp]: "without {} r = r" "without gone None = None" "fst n \<notin> gone \<Longrightarrow> without gone (Some n) = Some n"
  "fst n \<in> gone \<Longrightarrow> without gone (Some n) = None"
  by (auto simp: without_def split: option.splits)

lemma lookup_unlinked:
  assumes i: "tab_inv s"
  shows "lookup (unlinked c s) t ign = without {c} (lookup s t ign)"
proof -
  let ?P = "\<lambda>n. Some (fst n) \<noteq> ign \<and> ip_ct_tuple_equal t (k_tuple (the (cores s (fst n))) (snd n))"
  let ?xs = "hash s (hash_conntrack s t)"
  have eq: "lookup (unlinked c s) t ign = List.find (\<lambda>n. fst n \<noteq> c \<and> ?P n) ?xs"
    by (simp add: lookup_def find_filter)
  show ?thesis
  proof (cases "lookup s t ign")
    case None
    then have "List.find (\<lambda>n. fst n \<noteq> c \<and> ?P n) ?xs = None" by (auto simp: lookup_def find_None_iff)
    then show ?thesis using None unfolding eq by simp
  next
    case (Some n)
    then have n: "List.find ?P ?xs = Some n" by (simp add: lookup_def)
    show ?thesis
    proof (cases "fst n = c")
      case False
      then show ?thesis using Some find_stronger [OF n, of "\<lambda>n. fst n \<noteq> c"] unfolding eq by simp
    next
      case True
      have "\<not> (fst n' \<noteq> c \<and> ?P n')" if "n' \<in> set ?xs" for n'
      proof
        assume p: "fst n' \<noteq> c \<and> ?P n'"
        have n1: "n \<in> set ?xs" "?P n" using find_SomeD [OF n] by auto
        obtain a d a' d' where ad: "n = (a, d)" "n' = (a', d')" by (cases n, cases n')
        have l: "linked s a d" "linked s a' d'" using n1(1) that ad by (auto simp: linked_def)
        obtain k where k: "cores s a = Some k" using linked_cores [OF i l(1)] by blast
        obtain k' where k': "cores s a' = Some k'" using linked_cores [OF i l(2)] by blast
        have e: "ip_ct_tuple_equal t (k_tuple k d)" "ip_ct_tuple_equal t (k_tuple k' d')" using n1(2) p k k' ad by simp_all
        have "a = a'" by (rule tab_invD(5) [OF i l k k' tuple_equal_trans [OF tuple_equal_sym [THEN iffD1, OF e(1)] e(2)]])
        then show False using p True ad by simp
      qed
      then have "List.find (\<lambda>n. fst n \<noteq> c \<and> ?P n) ?xs = None" unfolding find_None_iff by blast
      then show ?thesis using Some True unfolding eq by simp
    qed
  qed
qed

lemma exp_inv_mono: "exp_inv (insert c D) s \<Longrightarrow> exp_inv D s"
  unfolding exp_inv_def by blast

lemma unlink_ok:
  assumes i: "tab_inv s" and ct: "cts s c = Some ct" "linked s c 0"
  shows "Option.bind (unlink_node (c, 0) (hash_conntrack s (tuple_at ct 0)) s)
      (unlink_node (c, 1) (hash_conntrack s (tuple_at ct 1))) = Some (unlinked c s)"
proof -
  let ?h = "\<lambda>d. hash_conntrack s (tuple_at ct d)"
  have k: "cores s c = Some (core ct)" using ct(1) by (simp add: cores_def)
  have m: "(c, 0) \<in> set (hash s (?h 0))" "(c, 1) \<in> set (hash s (?h 1))"
    using linked_in_chain [OF i _ k] linked_both [OF i ct(2)] by auto
  have u: "d = 0 \<and> h = ?h 0 \<or> d = 1 \<and> h = ?h 1" if "(c, d) \<in> set (hash s h)" for d h
    using tab_invD(2,3) [OF i that] k by auto
  have f: "filter (\<lambda>n. fst n \<noteq> c) (hash s h) = filter (\<lambda>n. n \<noteq> (c, 0) \<and> n \<noteq> (c, 1)) (hash s h)" for h
    by (intro filter_cong refl) (use u in fastforce)
  let ?s1 = "s\<lparr>hash := (hash s)(?h 0 := remove1 (c, 0) (hash s (?h 0)))\<rparr>"
  have "(hash ?s1)(?h 1 := remove1 (c, 1) (hash ?s1 (?h 1))) = (\<lambda>h. filter (\<lambda>n. fst n \<noteq> c) (hash s h))"
  proof
    fix h
    note R = remove1_filter [OF tab_invD(1) [OF i]]
    have d: "remove1 (c, 1) (filter (\<lambda>x. x \<noteq> (c, 0)) (hash s h)) = filter (\<lambda>n. fst n \<noteq> c) (hash s h)"
      unfolding f using remove1_filter [of "filter (\<lambda>x. x \<noteq> (c, 0)) (hash s h)"] tab_invD(1) [OF i] by (simp add: conj_commute)
    have z: "filter (\<lambda>n. n \<noteq> (c, d)) (hash s h) = hash s h" if "h \<noteq> ?h d" for d
      using that u [of d h] by (auto simp: filter_id_conv)
    have y: "remove1 (c, 1) (filter (\<lambda>x. x \<noteq> (c, 0)) (hash s h)) = filter (\<lambda>x. x \<noteq> (c, 0)) (hash s h)" if "h \<noteq> ?h 1"
      using that u [of 1 h] by (auto intro: remove1_idem)
    show "((hash ?s1)(?h 1 := remove1 (c, 1) (hash ?s1 (?h 1)))) h = filter (\<lambda>n. fst n \<noteq> c) (hash s h)"
      using d y z [of 0] by (cases "h = ?h 0"; cases "h = ?h 1") (simp_all add: R)
  qed
  then have "s\<lparr>hash := (hash ?s1)(?h 1 := remove1 (c, 1) (hash ?s1 (?h 1)))\<rparr> = unlinked c s" by (simp only: unlinked_def)
  moreover have "(c, 1) \<in> set (hash ?s1 (?h 1))" using m by auto
  ultimately show ?thesis using m by (simp add: unlink_node_def)
qed

lemma ct_inv_exp:
  assumes i: "ct_inv ext D s" and f: "exp_frame s s'" and x: "exp_inv D s'"
  shows "ct_inv ext D s'"
proof -
  note F = exp_frame_same [OF f]
  have "nat_inv D s'" by (rule nat_inv_cong [OF ct_invD(3) [OF i] F(2-4,6)])
  moreover have "ref_inv ext D s'"
    using ct_invD(4) [OF i] unfolding ref_inv_def shell_cong [OF exp_frame_shell [OF f]] F(6) children_cong [OF F(6)] .
  moreover have "typ_inv s'" by (rule typ_inv_same [OF F(6) ct_invD(5) [OF i]])
  ultimately show ?thesis using x same_table_tab_inv [OF F(1)] ct_invD(1) [OF i] by (simp add: ct_inv_def)
qed

lemma ref_inv_unlinked:
  assumes r: "ref_inv ext D s" and c: "linked s c 0" "c \<in> dom (cores s)"
  shows "ref_inv (ext(c := Suc (ext c))) D (unlinked c s)"
proof -
  note R = ref_invD [OF r]
  have ch: "children D (unlinked c s) = children D s" by (rule children_cong) simp
  have cD: "c \<notin> D" using R(3) c(1) by blast
  show ?thesis
    unfolding ref_inv_def ch unlinked_sel
  proof (intro conjI allI ballI impI)
    show "finite (dom (cores s))" "D \<subseteq> dom (cores s)" by (rule R(1), rule R(2))
    fix a assume a: "a \<in> D"
    show "\<not> (linked s a 0 \<and> a \<noteq> c)" "a \<notin> set (unconfirmed s)" "(ext(c := Suc (ext c))) a = 0" "children D s a = {}"
      using R(3-6) [OF a] a cD by auto
  next
    fix a ka assume "cores s a = Some ka \<and> a \<notin> D"
    then have a: "cores s a = Some ka" "a \<notin> D" by simp_all
    show "k_use ka = int ((ext(c := Suc (ext c))) a) + of_bool (linked s a 0 \<and> a \<noteq> c) + int (card (children D s a))"
      using R(7) [OF a] c(1) by auto
    show "0 < k_use ka" by (rule R(8) [OF a])
    show "bit (k_status ka) 3 \<or> a \<in> set (unconfirmed s)" by (rule R(9) [OF a])
    show "m \<in> dom (cores s) - D" if "k_master ka = Some m" for m by (rule R(10) [OF a that])
  next
    fix a assume "cores s a = None" then show "(ext(c := Suc (ext c))) a = 0" using R(11) [of a] c(2) by auto
  next
    fix a assume "brk s \<le> a" then show "cores s a = None" by (rule R(12))
  qed
qed

lemma ct_inv_unlinked:
  assumes i: "ct_inv ext D s" and ct: "cts s c = Some ct" "linked s c 0" "\<not> pending ct"
  shows "ct_inv (ext(c := Suc (ext c))) D (unlinked c s)"
proof -
  have "tab_inv (unlinked c s)"
    by (rule tab_inv_unlinked [OF ct_invD(1) [OF i]]) (use ct in \<open>auto simp: cores_def\<close>)
  moreover have "exp_inv D (unlinked c s)" by (rule exp_inv_upd [OF ct_invD(2) [OF i] ct(1), of _ ct]) (use ct in \<open>simp_all add: fun_upd_idem\<close>)
  moreover have "nat_inv D (unlinked c s)" by (rule nat_inv_cong [OF ct_invD(3) [OF i]]) simp_all
  moreover have "ref_inv (ext(c := Suc (ext c))) D (unlinked c s)"
    by (rule ref_inv_unlinked [OF ct_invD(4) [OF i] ct(2)]) (use ct(1) in \<open>auto simp: dom_cores\<close>)
  moreover have "typ_inv (unlinked c s)" by (rule typ_inv_same [OF unlinked_sel(1) ct_invD(5) [OF i]])
  ultimately show ?thesis by (simp add: ct_inv_def)
qed

lemma clean_ok:
  assumes i: "ct_inv ext D s" and ct: "cts s c = Some ct" "linked s c 0" "\<not> pending ct"
  shows "\<exists>s'. clean_from_lists c s = Some s' \<and> ct_inv (ext(c := Suc (ext c))) D s' \<and> exp_frame (unlinked c s) s'"
proof -
  note u = ct_inv_unlinked [OF i ct]
  have run: "clean_from_lists c s = ip_ct_remove_expectations c (unlinked c s)"
    using unlink_ok [OF ct_invD(1) [OF i] ct(1,2)] ct(1)
    by (cases "unlink_node (c, 0) (hash_conntrack s (tuple_at ct 0)) s") (simp_all add: clean_from_lists_def)
  obtain s' where s': "ip_ct_remove_expectations c (unlinked c s) = Some s'" "exp_frame (unlinked c s) s'" "exp_inv (insert c D) s'"
    using remove_expectations_ok [OF ct_invD(2) [OF u], of c] ct(1) by auto
  then show ?thesis using run ct_inv_exp [OF u s'(2) exp_inv_mono [OF s'(3)]] by simp
qed

lemma exp_frame_keeps: "exp_frame s s' \<Longrightarrow> keeps s s'"
  using exp_frame_same [of s s'] by (simp add: keeps_def same_chains_def same_table_def)

lemma keeps_lookup:
  assumes "tab_inv s'" "keeps s s'"
  shows "lookup s' = lookup s"
proof -
  have h: "hash s' = hash s" "hash_conntrack s' = hash_conntrack s"
    using assms(2) hash_conntrack_cong [of s' s] by (simp_all add: keeps_def same_chains_def)
  have "k_tuple (the (cores s' a)) d = k_tuple (the (cores s a)) d" if n: "(a, d) \<in> set (hash s x)" for a d x
  proof -
    obtain k' where "cores s' a = Some k'" using tab_invD(3) [OF assms(1), of a d x] n h(1) by auto
    with keepsD [OF assms(2) this] show ?thesis by (auto simp: same_core_def k_tuple_def)
  qed
  then show ?thesis unfolding lookup_def h by (intro ext find_cong) auto
qed

lemma death_ok:
  assumes i: "ct_inv ext D s" and ct: "cts s c = Some ct" "linked s c 0" "\<not> pending ct" and r: "\<not> shnat_refuses env ct"
  shows "\<exists>s'. death_by_timeout env c s = Some s' \<and> ct_inv ext D s' \<and> keeps (unlinked c s) s'"
proof -
  obtain s1 where s1: "clean_from_lists c s = Some s1" "ct_inv (ext(c := Suc (ext c))) D s1" "exp_frame (unlinked c s) s1"
    using clean_ok [OF i ct] by blast
  then obtain s' where "ip_conntrack_put c s1 = Some s'" "ct_inv ext D s'" "keeps s1 s'"
    using put_ok [OF s1(2), of c] by auto
  then show ?thesis using s1 ct(1) r keeps_trans [OF exp_frame_keeps [OF s1(3)]] by (auto simp: death_by_timeout_def)
qed

subsection \<open>Updates of one connection\<close>

text \<open>What the protocol trackers and the callers of \<open>ip_conntrack_refresh\<close> may do to a connection.\<close>

definition harmless :: "ct_state \<Rightarrow> nat \<Rightarrow> ip_conntrack \<Rightarrow> ip_conntrack \<Rightarrow> bool" where
  "harmless s c ct ct' \<longleftrightarrow> fst (tuplehash ct') = fst (tuplehash ct) \<and> (linked s c 0 \<longrightarrow> tuplehash ct' = tuplehash ct)
     \<and> master ct' = master ct \<and> ct_use ct' = ct_use ct \<and> expecting ct' = expecting ct
     \<and> bit (status ct') 3 = bit (status ct) 3 \<and> status ct' AND IPS_NAT_DONE_MASK = status ct AND IPS_NAT_DONE_MASK
     \<and> (pending ct' \<longrightarrow> linked s c 0) \<and> (tcp_wf (tcp ct) \<longrightarrow> tcp_wf (tcp ct'))
     \<and> (invertible (snd (tuplehash ct)) \<longrightarrow> invertible (snd (tuplehash ct')))"

lemma lookup_upd:
  assumes i: "tab_inv s" and s': "hash s' = hash s" "hash_conntrack s' = hash_conntrack s" "cores s' = (cores s)(c \<mapsto> k')"
    and k: "cores s c = Some k" "linked s c 0 \<Longrightarrow> k_tuples k' = k_tuples k"
  shows "lookup s' = lookup s"
proof -
  have "k_tuple (the (cores s' a)) d = k_tuple (the (cores s a)) d" if n: "(a, d) \<in> set (hash s x)" for a d x
  proof -
    have "linked s a 0" using linked_both [OF i, of a d] n by (auto simp: linked_def)
    then show ?thesis using k s'(3) by (auto simp: k_tuple_def)
  qed
  then show ?thesis unfolding lookup_def s'(1,2) by (intro ext find_cong) auto
qed

lemma ct_inv_upd:
  assumes i: "ct_inv ext D s" and ct: "cts s c = Some ct" and h: "harmless s c ct ct'"
  shows "ct_inv ext D (s\<lparr>cts := (cts s)(c \<mapsto> ct')\<rparr>)" "lookup (s\<lparr>cts := (cts s)(c \<mapsto> ct')\<rparr>) = lookup s"
proof -
  let ?s = "s\<lparr>cts := (cts s)(c \<mapsto> ct')\<rparr>"
  have sh: "shell s ?s" by (simp add: shell_def)
  have co: "cores ?s = (cores s)(c \<mapsto> core ct')" by (simp add: ct_simps)
  have k: "cores s c = Some (core ct)" using ct by (simp add: cores_def)
  have "tab_inv ?s"
    using tab_inv_core [OF ct_invD(1) [OF i] sh co k] h by (simp add: harmless_def)
  moreover have "nat_inv D ?s"
    using nat_inv_core [OF ct_invD(3) [OF i] sh co k] h by (simp add: harmless_def)
  moreover have "exp_inv D ?s"
    by (rule exp_inv_upd [OF ct_invD(2) [OF i] ct, of _ ct']) (use h in \<open>simp_all add: harmless_def\<close>)
  moreover have "ref_inv ext D ?s"
  proof -
    note R = ref_invD [OF ct_invD(4) [OF i]]
    have ch: "children D ?s = children D s" using children_core [OF co k] h by (simp add: harmless_def)
    have d: "dom (cores ?s) = dom (cores s)" using k unfolding co by auto
    show ?thesis
      unfolding ref_inv_def ch d shell_cong [OF sh]
    proof (intro conjI allI ballI impI)
      fix a assume a: "a \<in> D"
      show "\<not> linked s a 0" "a \<notin> set (unconfirmed s)" "ext a = 0" "children D s a = {}" by (rule R(3-6) [OF a])+
    next
      fix a ka assume a: "cores ?s a = Some ka \<and> a \<notin> D"
      obtain k0 where k0: "cores s a = Some k0" "k_use ka = k_use k0" "k_master ka = k_master k0" "bit (k_status ka) 3 = bit (k_status k0) 3"
        using a k h unfolding co by (auto simp: harmless_def split: if_splits)
      have aD: "a \<notin> D" using a by simp
      show "k_use ka = int (ext a) + of_bool (linked s a 0) + int (card (children D s a))" "0 < k_use ka"
        "bit (k_status ka) 3 \<or> a \<in> set (unconfirmed s)"
        using R(7-9) [OF k0(1) aD] k0(2,4) by simp_all
      show "m \<in> dom (cores s) - D" if "k_master ka = Some m" for m using R(10) [OF k0(1) aD] that k0(3) by simp
    next
      fix a assume "cores ?s a = None" then show "ext a = 0" using R(11) [of a] unfolding co by (auto split: if_splits)
    next
      fix a assume "brk s \<le> a" then show "cores ?s a = None" using R(12) [of a] k unfolding co by auto
    qed (rule R(1) R(2))+
  qed
  moreover have "typ_inv ?s"
    by (rule typ_inv_upd [OF co ct_invD(5) [OF i]]) (use typ_invD [OF ct_invD(5) [OF i] ct] h in \<open>simp add: harmless_def typ_wf_def\<close>)
  ultimately show "ct_inv ext D ?s" by (simp add: ct_inv_def)
  show "lookup ?s = lookup s"
    by (rule lookup_upd [OF ct_invD(1) [OF i] _ _ co k]) (use h in \<open>simp_all add: harmless_def hash_conntrack_def fun_eq_iff\<close>)
qed

lemma linked_upd [simp]: "linked (s\<lparr>cts := m\<rparr>) = linked s"
  by (simp add: linked_def fun_eq_iff)

lemma unlinked_upd: "unlinked c (s\<lparr>cts := m\<rparr>) = (unlinked c s)\<lparr>cts := m\<rparr>"
  by (simp add: unlinked_def)

text \<open>The parameters of the table, and the next free address.\<close>

definition same_sizes :: "ct_state \<Rightarrow> ct_state \<Rightarrow> bool" where
  "same_sizes s s' \<longleftrightarrow> htable_size s' = htable_size s \<and> hash_rnd s' = hash_rnd s \<and> rnd_initted s' = rnd_initted s
     \<and> nat_htable_size s' = nat_htable_size s \<and> nat_loaded s' = nat_loaded s \<and> brk s' = brk s
     \<and> helpers s' = helpers s \<and> hlps s' = hlps s"

lemma same_sizes_refl [simp]: "same_sizes s s"
  by (simp add: same_sizes_def)

lemma same_sizes_trans: "same_sizes s s' \<Longrightarrow> same_sizes s' s'' \<Longrightarrow> same_sizes s s''"
  by (simp add: same_sizes_def)

lemma keeps_sizes: "keeps s s' \<Longrightarrow> same_sizes s s'"
  by (simp add: keeps_def same_chains_def same_sizes_def)

text \<open>Stopping the timer and letting the connection go. If the hardware NAT module refuses, it stays in the table, with
  no timer.\<close>

lemma kill_now_ok:
  assumes i: "ct_inv ext D s" and ct: "cts s c = Some ct"
  shows "\<exists>s'. kill_now env c s = Some (pending ct, s') \<and> ct_inv ext D s'
    \<and> (\<forall>t ign. lookup s' t ign = without (if pending ct \<and> \<not> shnat_refuses env (ct\<lparr>pending := False\<rparr>) then {c} else {}) (lookup s t ign))
    \<and> same_sizes s s'"
proof -
  let ?ct = "ct\<lparr>pending := False\<rparr>"
  let ?s1 = "s\<lparr>cts := (cts s)(c \<mapsto> ?ct)\<rparr>"
  have "harmless s c ct ?ct" by (simp add: harmless_def)
  note u = ct_inv_upd [OF i ct this]
  have run: "kill_now env c s = (if pending ct then do { s2 \<leftarrow> death_by_timeout env c ?s1; Some (True, s2) } else Some (False, ?s1))"
    using ct by (simp add: kill_now_def del_timer_def)
  consider (dies) "pending ct" "\<not> shnat_refuses env ?ct" | (stays) "pending ct" "shnat_refuses env ?ct" | (none) "\<not> pending ct" by blast
  then show ?thesis
  proof cases
    case dies
    have "linked s c 0" using tab_invD(6) [OF ct_invD(1) [OF i], of c "core ct"] ct dies(1) by (simp add: cores_def)
    then obtain s' where s': "death_by_timeout env c ?s1 = Some s'" "ct_inv ext D s'" "keeps (unlinked c ?s1) s'"
      using death_ok [OF u(1), of c ?ct env] dies(2) by auto
    then have "lookup s' t ign = without {c} (lookup s t ign)" for t ign
      using keeps_lookup [OF ct_invD(1) [OF s'(2)] s'(3)] lookup_unlinked [OF ct_invD(1) [OF u(1)]] u(2) by simp
    moreover have "same_sizes s s'" using s'(3) by (simp add: keeps_def same_chains_def same_sizes_def unlinked_def)
    ultimately show ?thesis using run dies s' by simp
  next
    case stays
    then show ?thesis using run u by (simp add: death_by_timeout_def same_sizes_def)
  next
    case none
    then show ?thesis using run u by (simp add: same_sizes_def)
  qed
qed

subsection \<open>Entering the table\<close>

text \<open>The state after \<open>__ip_conntrack_confirm\<close> has put the connection in.\<close>

definition entered :: "nat \<Rightarrow> ip_conntrack \<Rightarrow> u32 \<Rightarrow> ct_state \<Rightarrow> ct_state" where
  "entered c ct now s =
     (let oh = hash_conntrack s (tuple_at ct 0); rh = hash_conntrack s (tuple_at ct 1) in
      s\<lparr>unconfirmed := remove1 c (unconfirmed s), next_id := next_id s + 1,
        hash := \<lambda>h. (if h = rh then [(c, 1)] else []) @ (if h = oh then [(c, 0)] else []) @ hash s h,
        cts := (cts s)(c \<mapsto> set_status IPS_CONFIRMED_BIT (ct\<lparr>ct_id := next_id s + 1, expires := expires ct + now,
          pending := True, ct_use := ct_use ct + 1\<rparr>))\<rparr>)"

lemma confirm_new_eq:
  assumes i: "tab_inv s" and ct: "cts s c = Some ct" "c \<in> set (unconfirmed s)" "CTINFO2DIR ctinfo = 0"
  shows "confirm_new env c ctinfo s =
    (if lookup s (tuple_at ct 0) None = None \<and> lookup s (tuple_at ct 1) None = None
     then Some (NF_ACCEPT, entered c ct (jiffies env) s) else Some (NF_DROP, s))"
proof -
  have f: "chain_find s (hash s (hash_conntrack s t)) t None = Some (lookup s t None)" for t
    using find_lookup [OF i, of t None] by (simp add: ip_conntrack_find_def)
  have "s\<lparr>unconfirmed := u, next_id := n, cts := m, hash := h\<rparr>\<lparr>hash := h', cts := m'\<rparr>
    = s\<lparr>unconfirmed := u, next_id := n, hash := h', cts := m'\<rparr>" for u n m h h' m' by simp
  then show ?thesis
    using ct f by (simp add: confirm_new_def Let_def hash_insert_def upd_ct_def entered_def fun_eq_iff cong: if_cong)
qed

lemma entered_sel [simp]:
  "unconfirmed (entered c ct now s) = remove1 c (unconfirmed s)" "brk (entered c ct now s) = brk s"
  "bysource (entered c ct now s) = bysource s" "nat_loaded (entered c ct now s) = nat_loaded s"
  "nat_htable_size (entered c ct now s) = nat_htable_size s" "rnd_initted (entered c ct now s) = rnd_initted s"
  "exps (entered c ct now s) = exps s" "expect_list (entered c ct now s) = expect_list s"
  "hash_conntrack (entered c ct now s) = hash_conntrack s" "hash_by_src (entered c ct now s) = hash_by_src s"
  "hash (entered c ct now s) h = (if h = hash_conntrack s (tuple_at ct 1) then [(c, 1)] else [])
     @ (if h = hash_conntrack s (tuple_at ct 0) then [(c, 0)] else []) @ hash s h"
  by (simp_all add: entered_def Let_def hash_conntrack_def hash_by_src_def fun_eq_iff)

lemma entered_linked: "linked (entered c ct now s) a d \<longleftrightarrow> linked s a d \<or> a = c \<and> (d = 0 \<or> d = 1)"
  by (auto simp: linked_def)

lemma entered_cores:
  obtains k where "cores (entered c ct now s) = (cores s)(c \<mapsto> k)" "k_tuples k = tuplehash ct" "k_master k = master ct"
    "k_use k = ct_use ct + 1" "bit (k_status k) 3" "k_status k AND IPS_NAT_DONE_MASK = status ct AND IPS_NAT_DONE_MASK" "k_tcp k = tcp ct"
proof -
  have "\<not> bit (0x180 :: u32) 3" by code_simp
  then have "set_bit 3 w AND 0x180 = w AND (0x180 :: u32)" for w by (intro bit_eqI) (auto simp: bit_simps)
  then show thesis
    by (intro that [of "core (set_status IPS_CONFIRMED_BIT (ct\<lparr>ct_id := next_id s + 1, expires := expires ct + now,
          pending := True, ct_use := ct_use ct + 1\<rparr>))"])
       (auto simp: entered_def Let_def cores_def set_status_def bit_simps)
qed

lemma entered_tab_inv:
  assumes i: "tab_inv s" and ct: "cts s c = Some ct" "\<not> is_confirmed ct"
    and free: "lookup s (tuple_at ct 0) None = None" "lookup s (tuple_at ct 1) None = None"
  shows "tab_inv (entered c ct now s)"
proof -
  obtain k where k: "cores (entered c ct now s) = (cores s)(c \<mapsto> k)" "k_tuples k = tuplehash ct" "bit (k_status k) 3"
    using entered_cores [of c ct now s] by metis
  have kt: "k_tuple k d = tuple_at ct d" for d using k(2) by (simp add: k_tuple_def tuple_at_def)
  have kc: "cores s c = Some (core ct)" using ct(1) by (simp add: cores_def)
  have nl: "\<not> linked s c d" for d using linked_cores [OF i, of c d] kc ct(2) by (auto simp: is_confirmed_iff)
  then have nh: "(c, d) \<notin> set (hash s h)" for d h by (auto simp: linked_def)
  note I = tab_invD [OF i]
  have new: "a = c" if "linked s a d" "cores s a = Some ka" "d' = 0 \<or> d' = 1"
    "ip_ct_tuple_equal (k_tuple ka d) (tuple_at ct d')" for a d ka d'
    using lookup_NoneD [OF i _ that(1,2), of "tuple_at ct d'" None] free that(3,4) tuple_equal_sym by auto
  show ?thesis
    unfolding tab_inv_def entered_linked entered_sel(1,6,9)
  proof (intro conjI allI ballI impI)
    show "distinct (hash (entered c ct now s) h)" for h using I(1) nh by auto
    fix h a d assume m: "(a, d) \<in> set (hash (entered c ct now s) h)"
    then show "d = 0 \<or> d = 1" using I(2) [of a d h] by (auto split: if_splits)
    show "\<exists>k. cores (entered c ct now s) a = Some k \<and> bit (k_status k) 3 \<and> hash_conntrack s (k_tuple k d) = h"
      using m I(3) [of a d h] k(1,3) kt nh by (auto split: if_splits)
  next
    fix a d a' d' ka ka'
    assume *: "(linked s a d \<or> a = c \<and> (d = 0 \<or> d = 1)) \<and> (linked s a' d' \<or> a' = c \<and> (d' = 0 \<or> d' = 1))
      \<and> cores (entered c ct now s) a = Some ka \<and> cores (entered c ct now s) a' = Some ka'
      \<and> ip_ct_tuple_equal (k_tuple ka d) (k_tuple ka' d')"
    show "a = a'"
    proof (cases "a = c")
      case True
      then show ?thesis using * new [of a' d' ka' d] k(1) kt nl tuple_equal_sym by (auto split: if_splits)
    next
      case False
      then show ?thesis using * new [of a d ka d'] I(5) [of a d a' d' ka ka'] k(1) kt nl [of d'] by (auto split: if_splits)
    qed
  next
    show "distinct (remove1 c (unconfirmed s))" using I(7) by simp
    fix a assume "a \<in> set (remove1 c (unconfirmed s))"
    then have "a \<in> set (unconfirmed s)" "a \<noteq> c" using I(7) by auto
    then show "\<exists>k. cores (entered c ct now s) a = Some k \<and> \<not> bit (k_status k) 3" using I(8) [of a] k(1) by auto
  qed (use I(4) I(6) I(9) [OF kc] k(1) in \<open>auto split: if_splits\<close>)
qed

lemma entered_inv:
  assumes i: "ct_inv ext {} s" and ct: "cts s c = Some ct" "\<not> is_confirmed ct"
    and free: "lookup s (tuple_at ct 0) None = None" "lookup s (tuple_at ct 1) None = None"
  shows "ct_inv ext {} (entered c ct now s)"
proof -
  let ?s = "entered c ct now s"
  obtain k where k: "cores ?s = (cores s)(c \<mapsto> k)" "k_tuples k = tuplehash ct" "k_master k = master ct"
    "k_use k = ct_use ct + 1" "bit (k_status k) 3" "k_status k AND IPS_NAT_DONE_MASK = status ct AND IPS_NAT_DONE_MASK" "k_tcp k = tcp ct"
    using entered_cores [of c ct now s] by metis
  have kc: "cores s c = Some (core ct)" using ct(1) by (simp add: cores_def)
  have nl: "\<not> linked s c 0" using linked_cores [OF ct_invD(1) [OF i], of c 0] kc ct(2) by (auto simp: is_confirmed_iff)
  have "exp_inv {} ?s"
    by (rule exp_inv_upd [OF ct_invD(2) [OF i] ct(1), of _ "the (cts ?s c)"]) (simp_all add: entered_def Let_def set_status_def)
  moreover have "nat_inv {} ?s"
  proof -
    let ?t = "s\<lparr>cts := cts ?s\<rparr>"
    have ct': "cores ?t = (cores s)(c \<mapsto> k)" unfolding k(1) [symmetric] by (simp add: cores_def fun_eq_iff)
    have "nat_inv {} ?t"
      by (rule nat_inv_core [OF ct_invD(3) [OF i] _ ct' kc]) (use k(2,6) in \<open>simp_all add: shell_def\<close>)
    then show ?thesis by (rule nat_inv_cong) (simp_all add: cores_def fun_eq_iff)
  qed
  moreover have "ref_inv ext {} ?s"
  proof -
    note R = ref_invD [OF ct_invD(4) [OF i]]
    have ch: "children {} ?s = children {} s" using children_core [OF k(1) kc] k(3) by simp
    have d: "dom (cores ?s) = dom (cores s)" using kc unfolding k(1) by auto
    show ?thesis
      unfolding ref_inv_def ch d entered_linked entered_sel(1,2)
    proof (intro conjI allI ballI impI)
      fix a ka assume a: "cores ?s a = Some ka \<and> a \<notin> {}"
      then have ka: "a = c \<and> ka = k \<or> a \<noteq> c \<and> cores s a = Some ka" unfolding k(1) by (auto split: if_splits)
      show "k_use ka = int (ext a) + of_bool (linked s a 0 \<or> a = c \<and> ((0::u8) = 0 \<or> (0::u8) = 1)) + int (card (children {} s a))"
        using ka R(7) [of a ka] R(7) [OF kc] k(4) nl by auto
      show "0 < k_use ka" using ka R(8) [of a ka] R(8) [OF kc] k(4) by auto
      show "bit (k_status ka) 3 \<or> a \<in> set (remove1 c (unconfirmed s))" using ka R(9) [of a ka] k(5) by auto
      show "m \<in> dom (cores s) - {}" if "k_master ka = Some m" for m
        using ka R(10) [of a ka m] R(10) [OF kc, of m] that k(3) by auto
    next
      fix a assume "cores ?s a = None" then show "ext a = 0" using R(11) [of a] unfolding k(1) by (auto split: if_splits)
    next
      fix a assume "brk s \<le> a" then show "cores ?s a = None" using R(12) [of a] kc unfolding k(1) by auto
    qed (use R(1) in simp_all)
  qed
  moreover have "typ_inv ?s"
    by (rule typ_inv_upd [OF k(1) ct_invD(5) [OF i]]) (use typ_invD [OF ct_invD(5) [OF i] ct(1)] k in \<open>simp add: typ_wf_def\<close>)
  ultimately show ?thesis using entered_tab_inv [OF ct_invD(1) [OF i] ct free] by (simp add: ct_inv_def)
qed

lemma entered_lookup:
  assumes i: "tab_inv s" and ct: "cts s c = Some ct" "\<not> is_confirmed ct"
  shows "lookup (entered c ct now s) t ign =
    (if Some c \<noteq> ign \<and> ip_ct_tuple_equal t (tuple_at ct 1) then Some (c, 1)
     else if Some c \<noteq> ign \<and> ip_ct_tuple_equal t (tuple_at ct 0) then Some (c, 0)
     else lookup s t ign)"
proof -
  obtain k where k: "cores (entered c ct now s) = (cores s)(c \<mapsto> k)" "k_tuples k = tuplehash ct"
    using entered_cores [of c ct now s] by metis
  have kt: "k_tuple k d = tuple_at ct d" for d using k(2) by (simp add: k_tuple_def tuple_at_def)
  have nh: "(c, d) \<notin> set (hash s h)" for d h
    using tab_invD(3) [OF i, of c d h] ct by (auto simp: cores_def is_confirmed_iff)
  define P where "P = (\<lambda>n. Some (fst n) \<noteq> ign \<and> ip_ct_tuple_equal t (k_tuple (the (cores (entered c ct now s) (fst n))) (snd n)))"
  have new: "P (c, d) \<longleftrightarrow> Some c \<noteq> ign \<and> ip_ct_tuple_equal t (tuple_at ct d)" for d using k(1) kt by (simp add: P_def)
  let ?xs = "hash s (hash_conntrack s t)"
  have old: "List.find P ?xs = lookup s t ign"
    unfolding lookup_def
  proof (rule find_cong [OF refl])
    fix n assume n: "n \<in> set ?xs"
    have "fst n \<noteq> c" using nh n by (cases n) auto
    then show "P n = (Some (fst n) \<noteq> ign \<and> ip_ct_tuple_equal t (k_tuple (the (cores s (fst n))) (snd n)))" using k(1) by (simp add: P_def)
  qed
  have hit: "hash_conntrack s t = hash_conntrack s (tuple_at ct d)" if "P (c, d)" for d
    unfolding hash_conntrack_def by (rule tuple_equal_hash) (use that new in simp)
  have "lookup (entered c ct now s) t ign = List.find P (hash (entered c ct now s) (hash_conntrack s t))"
    by (simp only: lookup_def P_def entered_sel(9))
  then show ?thesis
    unfolding entered_sel(11) old [symmetric] new [symmetric]
    by (simp only:) (rule find_two, rule hit, assumption, rule hit, assumption)
qed

subsection \<open>Taking references and making room\<close>

lemma get_ok:
  assumes i: "ct_inv ext D s" and c: "c \<in> dom (cts s) - D"
  shows "\<exists>s'. nf_conntrack_get c s = Some s' \<and> ct_inv (ext(c := Suc (ext c))) D s' \<and> keeps s s'"
proof -
  obtain ct where ct: "cts s c = Some ct" "c \<notin> D" using c by auto
  have k: "cores s c = Some (core ct)" using ct(1) by (simp add: cores_def)
  have u: "0 < ct_use ct" using ref_invD(8) [OF ct_invD(4) [OF i] k ct(2)] by simp
  have "ct_inv (ext(c := Suc (ext c))) D (s\<lparr>cts := (cts s)(c \<mapsto> ct\<lparr>ct_use := ct_use ct + 1\<rparr>)\<rparr>)"
    by (rule ct_inv_use [OF i ct]) (use u in simp_all)
  moreover have "keeps s (s\<lparr>cts := (cts s)(c \<mapsto> ct\<lparr>ct_use := ct_use ct + 1\<rparr>)\<rparr>)"
    using k by (auto simp: keeps_def same_chains_def same_core_def cores_upd)
  ultimately show ?thesis using ct(1) by (simp add: nf_conntrack_get_def upd_ct_def)
qed

lemma linked_live: "ct_inv ext D s \<Longrightarrow> linked s c d \<Longrightarrow> c \<in> dom (cts s) - D"
  using linked_cores [OF ct_invD(1)] linked_both [OF ct_invD(1)] ref_invD(3) [OF ct_invD(4)] by (fastforce simp: cores_Some)

lemma find_get_ok:
  assumes i: "ct_inv ext D s"
  shows "\<exists>s'. ip_conntrack_find_get t ign s = Some (lookup s t ign, s') \<and> keeps s s'
    \<and> ct_inv (case lookup s t ign of None \<Rightarrow> ext | Some n \<Rightarrow> ext(fst n := Suc (ext (fst n)))) D s'"
proof (cases "lookup s t ign")
  case None
  then show ?thesis using i find_lookup [OF ct_invD(1) [OF i], of t ign] by (simp add: ip_conntrack_find_get_def)
next
  case (Some n)
  then have "linked s (fst n) (snd n)" using lookup_SomeD(1) [OF ct_invD(1) [OF i]] by (cases n) auto
  then obtain s' where "nf_conntrack_get (fst n) s = Some s'" "ct_inv (ext(fst n := Suc (ext (fst n)))) D s'" "keeps s s'"
    using get_ok [OF i linked_live [OF i]] by blast
  then show ?thesis using Some find_lookup [OF ct_invD(1) [OF i], of t ign] by (simp add: ip_conntrack_find_get_def)
qed

lemma first_unreplied_total:
  assumes "\<forall>n \<in> set ns. cts s (fst n) \<noteq> None"
  shows "first_unreplied s ns = Some (List.find (\<lambda>n. \<not> bit (status (the (cts s (fst n)))) 2) ns)"
  using assms
proof (induction ns)
  case (Cons n ns)
  then obtain ct where "cts s (fst n) = Some ct" by auto
  with Cons show ?case by (simp add: unreplied_def test_status_def)
qed simp

text \<open>At most one connection goes, and none that is assured.\<close>

lemma early_drop_ok:
  assumes i: "ct_inv ext {} s"
  shows "\<exists>dropped s' gone. early_drop env h s = Some (dropped, s') \<and> ct_inv ext {} s' \<and> same_sizes s s'
    \<and> (\<forall>t ign. lookup s' t ign = without gone (lookup s t ign))
    \<and> (\<forall>c \<in> gone. gone = {c} \<and> dropped \<and> (\<exists>ct d. cts s c = Some ct \<and> \<not> bit (status ct) 2 \<and> (c, d) \<in> set (hash s h)))"
proof -
  have live: "\<forall>n \<in> set (List.rev (hash s h)). cts s (fst n) \<noteq> None"
    using tab_invD(3) [OF ct_invD(1) [OF i]] by (fastforce simp: cores_Some)
  note fu = first_unreplied_total [OF live]
  show ?thesis
  proof (cases "List.find (\<lambda>n. \<not> bit (status (the (cts s (fst n)))) 2) (List.rev (hash s h))")
    case None
    then have "early_drop env h s = Some (False, s)" using fu by (simp add: early_drop_def)
    then show ?thesis using i by (intro exI [of _ False] exI [of _ s] exI [of _ "{}"]) simp
  next
    case (Some n)
    obtain c d where n: "n = (c, d)" by (cases n)
    have m: "(c, d) \<in> set (hash s h)" "\<not> bit (status (the (cts s c))) 2" using find_SomeD [OF Some] n by auto
    obtain ct where ct: "cts s c = Some ct" using live m(1) by fastforce
    obtain s1 where s1: "nf_conntrack_get c s = Some s1" "ct_inv (ext(c := Suc (ext c))) {} s1" "keeps s s1"
      using get_ok [OF i, of c] ct by auto
    obtain ct1 where ct1: "cts s1 c = Some ct1" using ct_inv_live [OF s1(2), of c] by auto
    let ?g = "if pending ct1 \<and> \<not> shnat_refuses env (ct1\<lparr>pending := False\<rparr>) then {c} else {}"
    obtain s2 where s2: "kill_now env c s1 = Some (pending ct1, s2)" "ct_inv (ext(c := Suc (ext c))) {} s2"
      "\<And>t ign. lookup s2 t ign = without ?g (lookup s1 t ign)" "same_sizes s1 s2"
      using kill_now_ok [OF s1(2) ct1, of env] by blast
    obtain s3 where s3: "ip_conntrack_put c s2 = Some s3" "ct_inv ext {} s3" "keeps s2 s3"
      using put_ok [OF s2(2), of c] by auto
    have "lookup s3 t ign = without ?g (lookup s t ign)" for t ign
      using keeps_lookup [OF ct_invD(1) [OF s3(2)] s3(3)] keeps_lookup [OF ct_invD(1) [OF s1(2)] s1(3)] s2(3) by simp
    moreover have "same_sizes s s3"
      using keeps_sizes [OF s1(3)] s2(4) keeps_sizes [OF s3(3)] same_sizes_trans by blast
    moreover have "early_drop env h s = Some (pending ct1, s3)" using fu Some n s1(1) s2(1) s3(1) by (simp add: early_drop_def)
    ultimately show ?thesis using s3(2) ct m
      by (intro exI [of _ "pending ct1"] exI [of _ s3] exI [of _ ?g]) auto
  qed
qed

subsection \<open>Allocation\<close>

text \<open>A new connection, once it is on the list of unconfirmed ones.\<close>

definition queued :: "nat \<Rightarrow> ct_state \<Rightarrow> ct_state" where
  "queued c s = s\<lparr>unconfirmed := c # unconfirmed s\<rparr>"

definition fresh :: "ip_conntrack \<Rightarrow> ct_state \<Rightarrow> ct_state" where
  "fresh ct s = s\<lparr>cts := (cts s)(brk s \<mapsto> ct), brk := brk s + 1, ct_count := ct_count s + 1\<rparr>"

lemma fresh_tab_inv:
  assumes i: "tab_inv s" and n: "cts s (brk s) = None" "rnd_initted s" and ct: "\<not> pending ct" "\<not> bit (status ct) 3"
  shows "tab_inv (queued (brk s) (fresh ct s))"
proof -
  let ?s = "queued (brk s) (fresh ct s)"
  have co: "cores ?s = (cores s)(brk s \<mapsto> core ct)" by (auto simp: queued_def fresh_def cores_def)
  have S: "hash ?s = hash s" "hash_conntrack ?s = hash_conntrack s" "linked ?s = linked s" "rnd_initted ?s = rnd_initted s"
    "unconfirmed ?s = brk s # unconfirmed s"
    by (simp_all add: queued_def fresh_def hash_conntrack_def linked_def fun_eq_iff)
  note I = tab_invD [OF i]
  have nk: "cores s (brk s) = None" using n(1) by (simp add: cores_def)
  have nl: "\<not> linked s (brk s) d" for d using linked_cores [OF i, of "brk s" d] nk by auto
  have nu: "brk s \<notin> set (unconfirmed s)" using I(8) [of "brk s"] nk by auto
  show ?thesis
    unfolding tab_inv_def S
  proof (intro conjI allI ballI impI)
    fix h a d assume m: "(a, d) \<in> set (hash s h)"
    show "d = 0 \<or> d = 1" by (rule I(2) [OF m])
    show "\<exists>k. cores ?s a = Some k \<and> bit (k_status k) 3 \<and> hash_conntrack s (k_tuple k d) = h"
      using I(3) [OF m] nk unfolding co by auto
  next
    fix a d a' d' ka ka'
    assume "linked s a d \<and> linked s a' d' \<and> cores ?s a = Some ka \<and> cores ?s a' = Some ka' \<and> ip_ct_tuple_equal (k_tuple ka d) (k_tuple ka' d')"
    then show "a = a'" using I(5) [of a d a' d' ka ka'] nl [of d] nl [of d'] unfolding co by (auto split: if_splits)
  next
    fix a ka assume "cores ?s a = Some ka \<and> k_pending ka"
    then show "linked s a 0" using I(6) [of a ka] ct(1) unfolding co by (auto split: if_splits)
  next
    fix a assume "a \<in> set (brk s # unconfirmed s)"
    then show "\<exists>k. cores ?s a = Some k \<and> \<not> bit (k_status k) 3" using I(8) [of a] ct(2) nu unfolding co by auto
  qed (use I(1) I(4) I(7) nu n(2) in simp_all)
qed

lemma fresh_inv:
  assumes i: "ct_inv ext {} s" and n: "rnd_initted s" and ct: "\<not> pending ct" "status ct = 0" "ct_use ct = 1" "master ct = None" "expecting ct = 0" "typ_wf (core ct)"
  shows "ct_inv (ext(brk s := 1)) {} (queued (brk s) (fresh ct s))"
proof -
  let ?s = "queued (brk s) (fresh ct s)"
  note R = ref_invD [OF ct_invD(4) [OF i]] and X = exp_invD [OF ct_invD(2) [OF i]] and N = nat_invD [OF ct_invD(3) [OF i]]
  have co: "cores ?s = (cores s)(brk s \<mapsto> core ct)" by (auto simp: queued_def fresh_def cores_def)
  have nk: "cores s (brk s) = None" by (rule R(12)) simp
  then have nb: "cts s (brk s) = None" by (simp add: cores_def)
  have nl: "\<not> linked s (brk s) 0" using linked_cores [OF ct_invD(1) [OF i], of "brk s" 0] nk by auto
  have S: "linked ?s = linked s" "hash_by_src ?s = hash_by_src s" "owned ?s = owned s"
    "bysource ?s = bysource s" "nat_loaded ?s = nat_loaded s" "expect_list ?s = expect_list s" "exps ?s = exps s"
    "unconfirmed ?s = brk s # unconfirmed s" "brk ?s = Suc (brk s)"
    by (simp_all add: queued_def fresh_def linked_def hash_by_src_def owned_def fun_eq_iff)
  have ow: "owned s (brk s) = []" using X(2) nb by (fastforce simp: owned_def filter_empty_conv)
  have ct': "cts ?s = (cts s)(brk s \<mapsto> ct)" by (simp add: queued_def fresh_def)
  have "exp_inv {} ?s"
    unfolding exp_inv_def S
  proof (intro conjI allI ballI impI)
    fix e assume "e \<in> set (expect_list s)"
    then show "\<exists>x. exps s e = Some x \<and> exp_pending x \<and> 2 \<le> exp_use x \<and> exp_master x \<in> dom (cts ?s) - {}"
      using X(2) [of e] unfolding ct' by auto
  next
    fix a ka assume "cts ?s a = Some ka"
    then show "expecting ka = of_nat (length (owned s a))" using X(4) [of a ka] ow ct(5) unfolding ct' by (auto split: if_splits)
  qed (use X(1,3,5) in simp_all)
  moreover have "nat_inv {} ?s"
    unfolding nat_inv_def S
  proof (intro conjI allI impI)
    fix h a assume a: "a \<in> set (bysource s h)"
    show "a \<notin> {}" by simp
    show "\<exists>k. cores ?s a = Some k \<and> k_status k AND IPS_NAT_DONE_MASK \<noteq> 0 \<and> hash_by_src s (k_tuple k 0) = h"
      using N(3) [OF a] nk unfolding co by auto
  next
    fix a ka assume "cores ?s a = Some ka \<and> a \<notin> {} \<and> k_status ka AND IPS_NAT_DONE_MASK \<noteq> 0"
    then show "nat_loaded s" "a \<in> set (bysource s (hash_by_src s (k_tuple ka 0)))"
      using N(4) [of a ka] ct(2) unfolding co by (auto split: if_splits)
  qed (rule N(1))
  moreover have "ref_inv (ext(brk s := 1)) {} ?s"
  proof -
    have ch: "children {} ?s = children {} s" using ct(4) nk unfolding children_def co by (auto simp: fun_eq_iff)
    have c0: "children {} s (brk s) = {}" using R(10) nk by (fastforce simp: children_def)
    have d: "dom (cores ?s) = insert (brk s) (dom (cores s))" unfolding co by simp
    show ?thesis
      unfolding ref_inv_def ch d S
    proof (intro conjI allI ballI impI)
      fix a ka assume "cores ?s a = Some ka \<and> a \<notin> {}"
      then have ka: "a = brk s \<and> ka = core ct \<or> a \<noteq> brk s \<and> cores s a = Some ka" unfolding co by (auto split: if_splits)
      show "k_use ka = int ((ext(brk s := 1)) a) + of_bool (linked s a 0) + int (card (children {} s a))"
        using ka R(7) [of a ka] nl c0 ct(3) by auto
      show "0 < k_use ka" using ka R(8) [of a ka] ct(3) by auto
      show "bit (k_status ka) 3 \<or> a \<in> set (brk s # unconfirmed s)" using ka R(9) [of a ka] by auto
      show "m \<in> insert (brk s) (dom (cores s)) - {}" if "k_master ka = Some m" for m using ka R(10) [of a ka m] that ct(4) by auto
    next
      fix a assume "cores ?s a = None" then show "(ext(brk s := 1)) a = 0" using R(11) [of a] unfolding co by (auto split: if_splits)
    next
      fix a assume "Suc (brk s) \<le> a" then show "cores ?s a = None" using R(12) [of a] unfolding co by auto
    qed (use R(1) in simp_all)
  qed
  moreover have "typ_inv ?s" by (rule typ_inv_upd [OF co ct_invD(5) [OF i]]) (simp add: ct(6))
  moreover have "tab_inv ?s" by (rule fresh_tab_inv [OF ct_invD(1) [OF i] nb n ct(1)]) (simp add: ct(2))
  ultimately show ?thesis by (simp add: ct_inv_def)
qed

text \<open>The first allocation draws the random number of the hash; the table is empty then.\<close>

lemma seed_ok:
  fixes r :: u32
  assumes i: "ct_inv ext {} s"
  defines "s' \<equiv> (if rnd_initted s then s else s\<lparr>hash_rnd := r, rnd_initted := True\<rparr>)"
  shows "ct_inv ext {} s'" "lookup s' = lookup s" "rnd_initted s'" "cts s' = cts s" "hash s' = hash s"
proof -
  have "ct_inv ext {} s' \<and> lookup s' = lookup s"
  proof (cases "rnd_initted s")
    case False
    have no: "cores s a = None" for a using tab_invD(9) [OF ct_invD(1) [OF i], of a] False by (cases "cores s a") auto
    have e: "hash s h = []" for h
    proof (cases "hash s h")
      case (Cons n ns)
      then show ?thesis using tab_invD(3) [OF ct_invD(1) [OF i], of "fst n" "snd n" h] no by simp
    qed
    have S: "hash s' = hash s" "cores s' = cores s" "unconfirmed s' = unconfirmed s" "linked s' = linked s" "owned s' = owned s"
      "exps s' = exps s" "expect_list s' = expect_list s" "cts s' = cts s" "bysource s' = bysource s" "nat_loaded s' = nat_loaded s"
      "hash_by_src s' = hash_by_src s" "brk s' = brk s" "children {} s' = children {} s" "rnd_initted s'"
      using False by (simp_all add: s'_def cores_def linked_def owned_def hash_by_src_def children_def fun_eq_iff)
    have "tab_inv s'"
      using ct_invD(1) [OF i] unfolding tab_inv_def S by (simp add: e no)
    moreover have "exp_inv {} s'" using ct_invD(2) [OF i] unfolding exp_inv_def S .
    moreover have "nat_inv {} s'" using ct_invD(3) [OF i] unfolding nat_inv_def S .
    moreover have "ref_inv ext {} s'" using ct_invD(4) [OF i] unfolding ref_inv_def S .
    moreover have "typ_inv s'" by (rule typ_inv_same [OF S(2) ct_invD(5) [OF i]])
    moreover have "lookup s' = lookup s" by (simp add: lookup_def S(1) e fun_eq_iff)
    ultimately show ?thesis by (simp add: ct_inv_def)
  next
    case True
    then show ?thesis using i by (simp add: s'_def)
  qed
  then show "ct_inv ext {} s'" "lookup s' = lookup s" by simp_all
  show "rnd_initted s'" "cts s' = cts s" "hash s' = hash s" by (simp_all add: s'_def)
qed

end
