(* ===== verification/Ct_Alloc.thy ===== *)
theory Ct_Alloc
  imports Ct_Ops
begin

section \<open>Allocation, initialisation and the size of the table\<close>

text \<open>
  \<open>ip_conntrack_alloc\<close>, the initial state of \<^verbatim>\<open>ip_conntrack_core.c\<close> and \<open>set_hashsize\<close>, and what the operations on the
  table promise to their callers.
\<close>

lemma alloc_ok:
  assumes i: "ct_inv ext {} s0"
  shows "\<exists>s gone. ct_inv ext {} s \<and> rnd_initted s \<and> brk s = brk s0
    \<and> nat_loaded s = nat_loaded s0 \<and> helpers s = helpers s0 \<and> hlps s = hlps s0
    \<and> (\<forall>t ign. lookup s t ign = without gone (lookup s0 t ign))
    \<and> (\<forall>c \<in> gone. gone = {c} \<and> (\<exists>ct. cts s0 c = Some ct \<and> \<not> bit (status ct) 2) \<and> conntrack_max s0 \<le> ct_count s0)
    \<and> (ip_conntrack_alloc env orig repl s0 = Some (None, s)
       \<or> \<not> alloc_fails env \<and> ip_conntrack_alloc env orig repl s0 = Some (Some (brk s), fresh (blank_ct orig repl) s))"
proof -
  define s1 where "s1 = (if rnd_initted s0 then s0 else s0\<lparr>hash_rnd := random env, rnd_initted := True\<rparr>)"
  have s1: "ct_inv ext {} s1" "lookup s1 = lookup s0" "rnd_initted s1" "cts s1 = cts s0"
    unfolding s1_def by (rule seed_ok [OF i])+
  have c1: "conntrack_max s1 = conntrack_max s0" "ct_count s1 = ct_count s0" "brk s1 = brk s0"
    "nat_loaded s1 = nat_loaded s0" "helpers s1 = helpers s0" "hlps s1 = hlps s0" by (simp_all add: s1_def)
  define full where "full = (conntrack_max s0 \<noteq> 0 \<and> conntrack_max s0 \<le> ct_count s0)"
  have run: "ip_conntrack_alloc env orig repl s0 = do {
      (full, s) \<leftarrow> (if full then do { (dropped, s) \<leftarrow> early_drop env (hash_conntrack s1 orig) s1; Some (\<not> dropped, s) } else Some (False, s1));
      if full \<or> alloc_fails env then Some (None, s) else Some (Some (brk s), fresh (blank_ct orig repl) s) }"
    unfolding ip_conntrack_alloc_def s1_def [symmetric] Let_def fresh_def full_def by (simp only: c1)
  show ?thesis
  proof (cases full)
    case False
    then show ?thesis using s1 c1 run by (intro exI [of _ s1] exI [of _ "{}"]) simp
  next
    case True
    obtain dropped s gone where s: "early_drop env (hash_conntrack s1 orig) s1 = Some (dropped, s)" "ct_inv ext {} s" "same_sizes s1 s"
      "\<forall>t ign. lookup s t ign = without gone (lookup s1 t ign)"
      "\<forall>c \<in> gone. gone = {c} \<and> dropped \<and> (\<exists>ct d. cts s1 c = Some ct \<and> \<not> bit (status ct) 2 \<and> (c, d) \<in> set (hash s1 (hash_conntrack s1 orig)))"
      using early_drop_ok [OF s1(1), of env "hash_conntrack s1 orig"] by blast
    have z: "rnd_initted s" "brk s = brk s0" "nat_loaded s = nat_loaded s0" "helpers s = helpers s0" "hlps s = hlps s0"
      using s(3) s1(3) c1(3-6) by (simp_all add: same_sizes_def)
    have "\<forall>c \<in> gone. gone = {c} \<and> (\<exists>ct. cts s0 c = Some ct \<and> \<not> bit (status ct) 2) \<and> conntrack_max s0 \<le> ct_count s0"
    proof
      fix c assume c: "c \<in> gone"
      from bspec [OF s(5) c] s1(4) True show "gone = {c} \<and> (\<exists>ct. cts s0 c = Some ct \<and> \<not> bit (status ct) 2) \<and> conntrack_max s0 \<le> ct_count s0"
        unfolding full_def by auto
    qed
    moreover have "ip_conntrack_alloc env orig repl s0 = Some (None, s)
       \<or> \<not> alloc_fails env \<and> ip_conntrack_alloc env orig repl s0 = Some (Some (brk s), fresh (blank_ct orig repl) s)"
      unfolding run using True s(1) by auto
    ultimately show ?thesis using s(2,4) s1(2) z by (intro exI [of _ s] exI [of _ gone]) simp
  qed
qed

subsection \<open>The size of the table\<close>

lemma rehash_into_eq:
  assumes "\<forall>n \<in> set ns. cts s (fst n) \<noteq> None"
  shows "rehash_into s sz rnd ns tab
    = Some (\<lambda>b. tab b @ filter (\<lambda>n. hash_conntrack' (k_tuple (the (cores s (fst n))) (snd n)) sz rnd = b) ns)"
  using assms
proof (induction ns arbitrary: tab)
  case (Cons n ns)
  then obtain ct where ct: "cts s (fst n) = Some ct" by auto
  with Cons show ?case by (auto simp: cores_def fun_eq_iff Let_def)
qed simp

definition nodes :: "ct_state \<Rightarrow> (nat \<times> u8) list" where
  "nodes s = concat (map (\<lambda>i. hash s (of_nat i)) [0..<unat (htable_size s)])"

lemma hash_conntrack_less: "htable_size s \<noteq> 0 \<Longrightarrow> unat (hash_conntrack s t) < unat (htable_size s)"
  by (simp add: hash_conntrack_def hash_conntrack'_def word_less_nat_alt [symmetric] word_mod_less_divisor word_neq_0_conv)

lemma set_nodes:
  assumes "tab_inv s" "htable_size s \<noteq> 0"
  shows "n \<in> set (nodes s) \<longleftrightarrow> linked s (fst n) (snd n)"
proof
  show "n \<in> set (nodes s) \<Longrightarrow> linked s (fst n) (snd n)" by (auto simp: nodes_def linked_def)
  assume "linked s (fst n) (snd n)"
  then obtain h where h: "n \<in> set (hash s h)" by (auto simp: linked_def)
  then obtain k where "hash_conntrack s (k_tuple k (snd n)) = h" using tab_invD(3) [OF assms(1), of "fst n" "snd n" h] by auto
  then have "unat h < unat (htable_size s)" using hash_conntrack_less [OF assms(2)] by blast
  then show "n \<in> set (nodes s)" using h by (auto simp: nodes_def intro!: bexI [of _ "unat h"])
qed

lemma distinct_nodes:
  assumes "tab_inv s"
  shows "distinct (nodes s)"
proof -
  have "distinct (concat (map (\<lambda>i. hash s (of_nat i)) [0..<m]))" if "m \<le> unat (htable_size s)" for m
    using that
  proof (induction m)
    case (Suc m)
    have u: "i = m" if "i \<le> m" "n \<in> set (hash s (of_nat i))" "n \<in> set (hash s (of_nat m))" for i n
    proof -
      have e: "(of_nat i :: u32) = of_nat m"
        using tab_invD(3) [OF assms, of "fst n" "snd n" "of_nat i"] tab_invD(3) [OF assms, of "fst n" "snd n" "of_nat m"] that(2,3) by auto
      have b: "i < 2 ^ LENGTH(32)" "m < 2 ^ LENGTH(32)" using that(1) Suc.prems unsigned_less [where ?'a = nat, of "htable_size s"] by simp_all
      show ?thesis using of_nat_inverse [OF refl b(1)] of_nat_inverse [OF e [symmetric] b(2)] by (rule trans [OF sym])
    qed
    have "x \<notin> set (hash s (of_nat m))" if x: "x \<in> set (concat (map (\<lambda>i. hash s (of_nat i)) [0..<m]))" for x
    proof -
      from x obtain i where i: "i < m" "x \<in> set (hash s (of_nat i))" by auto
      then show ?thesis using u [of i x] by auto
    qed
    then have "set (concat (map (\<lambda>i. hash s (of_nat i)) [0..<m])) \<inter> set (hash s (of_nat m)) = {}" by blast
    then show ?case using Suc tab_invD(1) [OF assms, of "of_nat m"] by (simp del: distinct_concat_iff set_concat)
  qed simp
  then show ?thesis unfolding nodes_def by blast
qed

lemma resized_inv:
  assumes i: "ct_inv ext {} s" and z: "htable_size s \<noteq> 0"
    and s': "s' = s\<lparr>hash := tab, htable_size := sz, hash_rnd := rnd\<rparr>"
    and tab: "\<And>b. tab b = filter (\<lambda>n. hash_conntrack' (k_tuple (the (cores s (fst n))) (snd n)) sz rnd = b) (nodes s)"
  shows "ct_inv ext {} s'" "linked s' = linked s"
proof -
  note I = tab_invD [OF ct_invD(1) [OF i]] and n = set_nodes [OF ct_invD(1) [OF i] z]
  show l: "linked s' = linked s"
  proof (intro HOL.ext iffI)
    fix a d
    show "linked s' a d \<Longrightarrow> linked s a d" using n [of "(a, d)"] unfolding linked_def [of s'] by (auto simp: s' tab)
    show "linked s a d \<Longrightarrow> linked s' a d" using n [of "(a, d)"] unfolding linked_def [of s'] by (auto simp: s' tab)
  qed
  have S: "cores s' = cores s" "unconfirmed s' = unconfirmed s" "rnd_initted s' = rnd_initted s" "owned s' = owned s"
      "exps s' = exps s" "expect_list s' = expect_list s" "cts s' = cts s" "bysource s' = bysource s" "nat_loaded s' = nat_loaded s"
      "hash_by_src s' = hash_by_src s" "brk s' = brk s" "children {} s' = children {} s"
    by (simp_all add: s' cores_def owned_def hash_by_src_def children_def fun_eq_iff)
  have "tab_inv s'"
    unfolding tab_inv_def S l
  proof (intro conjI allI ballI impI)
    show "distinct (hash s' h)" for h using distinct_nodes [OF ct_invD(1) [OF i]] by (simp add: s' tab)
    fix h a d assume "(a, d) \<in> set (hash s' h)"
    then have m: "linked s a d" "hash_conntrack' (k_tuple (the (cores s a)) d) sz rnd = h" using n by (auto simp: s' tab)
    then obtain k where k: "cores s a = Some k" "bit (k_status k) 3" using linked_cores [OF ct_invD(1) [OF i]] by blast
    show "d = 0 \<or> d = 1" by (rule linked_dir [OF ct_invD(1) [OF i] m(1)])
    show "\<exists>k. cores s a = Some k \<and> bit (k_status k) 3 \<and> hash_conntrack s' (k_tuple k d) = h"
      using k m(2) by (simp add: hash_conntrack_def s')
  next
    fix a d a' d' ka ka'
    assume "linked s a d \<and> linked s a' d' \<and> cores s a = Some ka \<and> cores s a' = Some ka' \<and> ip_ct_tuple_equal (k_tuple ka d) (k_tuple ka' d')"
    then show "a = a'" using I(5) by blast
  next
    fix a ka assume "cores s a = Some ka \<and> k_pending ka" then show "linked s a 0" using I(6) by blast
  next
    show "rnd_initted s \<or> (\<forall>j. cores s j = None)" using I(9) by (metis option.exhaust)
  qed (rule I(4) I(7) I(8) | assumption)+
  moreover have "exp_inv {} s'" using ct_invD(2) [OF i] unfolding exp_inv_def S .
  moreover have "nat_inv {} s'" using ct_invD(3) [OF i] unfolding nat_inv_def S .
  moreover have "ref_inv ext {} s'" using ct_invD(4) [OF i] unfolding ref_inv_def S l .
  moreover have "typ_inv s'" by (rule typ_inv_same [OF S(1) ct_invD(5) [OF i]])
  ultimately show "ct_inv ext {} s'" by (simp add: ct_inv_def)
qed

text \<open>What a lookup finds does not depend on the order of the chains.\<close>

lemma lookup_by_links:
  assumes "tab_inv s" "tab_inv s'" "linked s' = linked s" "cores s' = cores s"
  shows "map_option fst (lookup s' t ign) = map_option fst (lookup s t ign)"
proof (cases "lookup s t ign")
  case (Some n)
  obtain c d where cd: "n = (c, d)" by (cases n)
  obtain k where k: "linked s c d" "Some c \<noteq> ign" "cores s c = Some k" "ip_ct_tuple_equal t (k_tuple k d)"
    using lookup_SomeD [OF assms(1)] Some cd by blast
  obtain d' where "lookup s' t ign = Some (c, d')"
    using lookup_linked [OF assms(2), of c d k t ign] k assms(3,4) by auto
  with Some cd show ?thesis by simp
next
  case None
  show ?thesis
  proof (cases "lookup s' t ign")
    case (Some n)
    obtain c d where cd: "n = (c, d)" by (cases n)
    obtain k where "linked s' c d" "Some c \<noteq> ign" "cores s' c = Some k" "ip_ct_tuple_equal t (k_tuple k d)"
      using lookup_SomeD [OF assms(2)] Some cd by blast
    then show ?thesis using lookup_NoneD [OF assms(1) None] assms(3,4) by simp
  qed (simp add: None)
qed

lemma set_hashsize_ok:
  assumes i: "ct_inv ext {} s" and z: "htable_size s \<noteq> 0"
  shows "\<exists>r s'. set_hashsize env sz s = Some (r, s') \<and> ct_inv ext {} s' \<and> htable_size s' \<noteq> 0
    \<and> (r = 0 \<longrightarrow> htable_size s' = sz) \<and> (r \<noteq> 0 \<longrightarrow> s' = s)
    \<and> (\<forall>t ign. map_option fst (lookup s' t ign) = map_option fst (lookup s t ign))"
proof (cases "sz = 0 \<or> alloc_fails env")
  case True
  then show ?thesis using i z by (auto simp: set_hashsize_def)
next
  case False
  have live: "\<forall>n \<in> set (nodes s). cts s (fst n) \<noteq> None"
    using set_nodes [OF ct_invD(1) [OF i] z] linked_live [OF i] by blast
  define tab where "tab = (\<lambda>b. filter (\<lambda>n. hash_conntrack' (k_tuple (the (cores s (fst n))) (snd n)) sz (random env) = b) (nodes s))"
  define s' where "s' = s\<lparr>hash := tab, htable_size := sz, hash_rnd := random env\<rparr>"
  have run: "set_hashsize env sz s = Some (0, s')"
    using False z rehash_into_eq [OF live, of sz "random env" "\<lambda>b. []"] by (simp add: set_hashsize_def nodes_def s'_def tab_def)
  have r: "ct_inv ext {} s'" "linked s' = linked s"
    by (rule resized_inv [OF i z s'_def], simp add: tab_def)+
  have "cores s' = cores s" by (simp add: s'_def cores_def fun_eq_iff)
  then show ?thesis using run r lookup_by_links [OF ct_invD(1) [OF i] ct_invD(1) [OF r(1)] r(2)] False by (simp add: s'_def)
qed

subsection \<open>The empty table\<close>

lemma empty_inv:
  assumes "\<And>c. cts s c = None" "\<And>e. exps s e = None" "\<And>h. hash s h = []" "unconfirmed s = []" "expect_list s = []" "\<And>h. bysource s h = []"
  shows "ct_inv (\<lambda>c. 0) {} s"
proof -
  have "cores s c = None" for c using assms(1) by (simp add: cores_def)
  then show ?thesis
    using assms by (simp add: ct_inv_def tab_inv_def exp_inv_def nat_inv_def ref_inv_def typ_inv_def linked_def dom_def)
qed

lemma init_ok:
  assumes "ip_conntrack_init pages so hash_ok slab_ok exp_ok (ct_boot sz) = (r, s)"
  shows "ct_inv (\<lambda>c. 0) {} s" "htable_size s \<noteq> 0" "sz = 0 \<Longrightarrow> 16 \<le> htable_size s"
proof -
  obtain n m where s: "s = (ct_boot sz)\<lparr>htable_size := n, conntrack_max := m\<rparr>" and n: "sz \<noteq> 0 \<and> n = sz \<or> sz = 0 \<and> 16 \<le> n"
    using assms by (cases "sz = 0") (auto simp: ip_conntrack_init_def Let_def ct_boot_def not_less split: if_splits)
  show "ct_inv (\<lambda>c. 0) {} s" by (rule empty_inv) (simp_all add: s ct_boot_def)
  show "htable_size s \<noteq> 0" "sz = 0 \<Longrightarrow> 16 \<le> htable_size s" using n by (auto simp: s)
qed

subsection \<open>A small table\<close>

text \<open>The state after boot, with one connection on its way, and with that connection in the table.\<close>

definition sample_reply :: ip_conntrack_tuple where
  "sample_reply = the (invert_tuplepr sample_tuple)"

definition sample_env :: ct_env where
  "sample_env = \<lparr>jiffies = 1000, alloc_fails = False, random = 77, shnat_refuses = (\<lambda>ct. False), tcp_cfg = tcp_defaults\<rparr>"

definition sample0 :: ct_state where
  "sample0 = (snd (ip_conntrack_init 8192 0 True True True (ct_boot 0)))\<lparr>hash_rnd := 77, rnd_initted := True\<rparr>"

definition sample1 :: ct_state where
  "sample1 = queued 1 (fresh (blank_ct sample_tuple sample_reply) sample0)"

definition sample2 :: ct_state where
  "sample2 = entered 1 (blank_ct sample_tuple sample_reply) 1000 sample1"

abbreviation (input) one_ref :: "nat \<Rightarrow> nat" where "one_ref \<equiv> (\<lambda>c. 0)(1 := 1)"

lemma blank_ct_sel [simp]: "pending (blank_ct t u) = False" "status (blank_ct t u) = 0" "ct_use (blank_ct t u) = 1"
  "master (blank_ct t u) = None" "expecting (blank_ct t u) = 0" "tuplehash (blank_ct t u) = (t, u)" "tuple_at (blank_ct t u) 0 = t"
  "tuple_at (blank_ct t u) 1 = u" "helper (blank_ct t u) = None" "tcp (blank_ct t u) = blank_tcp"
  by (simp_all add: blank_ct_def Let_def tuple_at_def)

lemma blank_tcp_wf [simp]: "tcp_wf blank_tcp"
  by (simp add: tcp_wf_def blank_tcp_def Let_def less_tcp_conntrack_def)

lemma blank_wf: "invertible t \<Longrightarrow> invertible u \<Longrightarrow> typ_wf (core (blank_ct t u))"
  by (simp add: typ_wf_def blank_ct_def Let_def)

lemma sample_invertible: "invertible sample_tuple" "invertible sample_reply"
  by code_simp+

lemma sample0_sel: "brk sample0 = 1" "rnd_initted sample0" "hash sample0 h = []" "cts sample0 c = None" "htable_size sample0 \<noteq> 0"
  "conntrack_max sample0 = 2048" "ct_count sample0 = 0"
  by (simp_all add: sample0_def ip_conntrack_init_def ct_boot_def Let_def)

lemma sample0_inv: "ct_inv (\<lambda>c. 0) {} sample0"
  by (rule empty_inv) (simp_all add: sample0_def ip_conntrack_init_def ct_boot_def Let_def)

lemma sample1_inv: "ct_inv one_ref {} sample1"
  using fresh_inv [OF sample0_inv sample0_sel(2), of "blank_ct sample_tuple sample_reply"] sample0_sel(1)
    blank_wf [OF sample_invertible] by (simp add: sample1_def)

lemma sample1_sel: "cts sample1 1 = Some (blank_ct sample_tuple sample_reply)" "lookup sample1 t ign = None" "htable_size sample1 \<noteq> 0"
  by (simp_all add: sample1_def queued_def fresh_def sample0_sel lookup_def hash_conntrack_def)

lemma sample2_inv: "ct_inv one_ref {} sample2"
  unfolding sample2_def by (rule entered_inv [OF sample1_inv sample1_sel(1)]) (simp_all add: is_confirmed_iff sample1_sel(2))

lemma sample2_sel: "\<exists>ct. cts sample2 1 = Some ct \<and> pending ct \<and> status ct = 8" "htable_size sample2 \<noteq> 0"
  by (simp_all add: sample2_def entered_def Let_def set_status_def sample1_sel set_bit_eq_or)

subsection \<open>What the table promises\<close>

lemma put_last:
  assumes i: "ct_inv ext {} s" and ct: "cts s c = Some ct" and put: "ip_conntrack_put c s = Some s'" "ct_inv (ext(c := ext c - 1)) {} s'" "keeps s s'"
    and e: "0 < ext c"
  shows "cts s' c = None \<longleftrightarrow> ct_use ct = 1"
proof (cases "ct_use ct = 1")
  case False
  then have "s' = s\<lparr>cts := (cts s)(c \<mapsto> ct\<lparr>ct_use := ct_use ct - 1\<rparr>)\<rparr>"
    using put(1) ct by (subst (asm) ip_conntrack_put.simps) (simp add: upd_ct_def)
  then show ?thesis using False by simp
next
  case True
  have k: "cores s c = Some (core ct)" using ct by (simp add: cores_def)
  have "cores s' c = None"
  proof (rule ccontr)
    assume "cores s' c \<noteq> None"
    then obtain k' where k': "cores s' c = Some k'" by auto
    have sub: "children {} s' c \<subseteq> children {} s c"
      using keepsD [OF put(3)] by (fastforce simp: children_def same_core_def)
    have fin: "finite (children {} s c)"
      by (rule finite_subset [OF _ ref_invD(1) [OF ct_invD(4) [OF i]]]) (auto simp: children_def)
    have l: "linked s' = linked s" by (rule linked_cong) (use put(3) in \<open>simp add: keeps_def same_chains_def\<close>)
    have "k_use k' = int (ext c - 1) + of_bool (linked s c 0) + int (card (children {} s' c))" "0 < k_use k'"
      using ref_invD(7,8) [OF ct_invD(4) [OF put(2)] k'] by (simp_all add: l)
    moreover have "1 = int (ext c) + of_bool (linked s c 0) + int (card (children {} s c))"
      using ref_invD(7) [OF ct_invD(4) [OF i] k] True by simp
    ultimately show False using card_mono [OF fin sub] e by (simp add: of_nat_diff)
  qed
  then show ?thesis using True by (simp add: cores_None)
qed

text \<open>C22: Dropping a reference that is held never touches an object that is gone, whatever chain of masters goes with it:
  the call returns, the invariant holds with one reference less, the connection is freed exactly when the reference was the
  last, and every lookup has the same result as before.\<close>

theorem put_safe:
  assumes "ct_inv ext {} s" "0 < ext c"
  shows "\<exists>ct s'. cts s c = Some ct \<and> ip_conntrack_put c s = Some s' \<and> ct_inv (ext(c := ext c - 1)) {} s'
    \<and> (cts s' c = None \<longleftrightarrow> ct_use ct = 1) \<and> (\<forall>t ign. ip_conntrack_find t ign s' = ip_conntrack_find t ign s)"
proof -
  obtain ct where ct: "cts s c = Some ct" using ct_inv_live [OF assms] by blast
  obtain s' where s': "ip_conntrack_put c s = Some s'" "ct_inv (ext(c := ext c - 1)) {} s'" "keeps s s'"
    using put_ok [OF assms] by blast
  show ?thesis
    using ct s' put_last [OF assms(1) ct s' assms(2)] keeps_lookup [OF ct_invD(1) [OF s'(2)] s'(3)]
      find_lookup [OF ct_invD(1) [OF s'(2)]] find_lookup [OF ct_invD(1) [OF assms(1)]] by simp
qed

theorem put_safe_witness:
  "\<exists>s'. ip_conntrack_put 1 sample1 = Some s' \<and> cts s' 1 = None"
  using put_safe [OF sample1_inv, of 1] sample1_sel(1) by auto

text \<open>C23: \<open>__ip_conntrack_confirm\<close> puts a connection into the table if and only if neither of its tuples is taken; it is then
  found by either tuple and every other lookup is as before. If a tuple is taken the packet is dropped and the state unchanged.\<close>

theorem confirm_enters:
  assumes i: "ct_inv ext {} s" and ct: "cts s c = Some ct" "\<not> is_confirmed ct"
    and skb: "nfct skb = Some c" "CTINFO2DIR (nfctinfo skb) = IP_CT_DIR_ORIGINAL"
  shows "if ip_conntrack_find (tuple_at ct 0) None s = Some None \<and> ip_conntrack_find (tuple_at ct 1) None s = Some None
    then \<exists>s'. ip_conntrack_confirm env skb s = Some (NF_ACCEPT, s') \<and> ct_inv ext {} s'
      \<and> (\<forall>t. ip_conntrack_find t None s' =
           (if ip_ct_tuple_equal t (tuple_at ct 1) then Some (Some (c, 1))
            else if ip_ct_tuple_equal t (tuple_at ct 0) then Some (Some (c, 0)) else ip_conntrack_find t None s))
    else ip_conntrack_confirm env skb s = Some (NF_DROP, s)"
proof -
  have k: "cores s c = Some (core ct)" using ct(1) by (simp add: cores_def)
  have u: "c \<in> set (unconfirmed s)" using ref_invD(9) [OF ct_invD(4) [OF i] k] ct(2) by (simp add: is_confirmed_iff)
  have run: "ip_conntrack_confirm env skb s = confirm_new env c (nfctinfo skb) s" using ct skb(1) by (simp add: ip_conntrack_confirm_def)
  note f = find_lookup [OF ct_invD(1) [OF i]]
  show ?thesis
    using confirm_new_eq [OF ct_invD(1) [OF i] ct(1) u skb(2), of env] run entered_inv [OF i ct, of "jiffies env"]
      find_lookup [OF ct_invD(1), of ext "{}" "entered c ct (jiffies env) s"] entered_lookup [OF ct_invD(1) [OF i] ct]
    by (simp add: f)
qed

theorem confirm_enters_witness:
  "\<exists>s'. ip_conntrack_confirm sample_env (syn_pkt\<lparr>nfct := Some 1, nfctinfo := IP_CT_NEW\<rparr>) sample1 = Some (NF_ACCEPT, s')
    \<and> ip_conntrack_find sample_reply None s' = Some (Some (1, 1))"
proof -
  have f: "ip_conntrack_find t None sample1 = Some None" for t
    using find_lookup [OF ct_invD(1) [OF sample1_inv]] sample1_sel(2) by simp
  have e: "ip_ct_tuple_equal sample_reply sample_reply" by (simp add: tuple_equal_defs)
  from confirm_enters [OF sample1_inv sample1_sel(1), of "syn_pkt\<lparr>nfct := Some 1, nfctinfo := IP_CT_NEW\<rparr>" sample_env] show ?thesis
    by (auto simp: f e is_confirmed_iff CTINFO2DIR_def)
qed

text \<open>C24: When the timer of a connection is stopped for its removal (timeout, early drop, reset, flush), the connection is no
  longer found by any tuple and all others are, unless the hardware NAT module refuses: then nothing is removed.\<close>

theorem kill_removes:
  assumes "ct_inv ext {} s" "cts s c = Some ct" "pending ct"
  shows "\<exists>s'. kill_now env c s = Some (True, s') \<and> ct_inv ext {} s'
    \<and> (\<forall>t ign. ip_conntrack_find t ign s' =
         (if shnat_refuses env (ct\<lparr>pending := False\<rparr>) then ip_conntrack_find t ign s
          else map_option (without {c}) (ip_conntrack_find t ign s)))"
proof -
  obtain s' where s': "kill_now env c s = Some (True, s')" "ct_inv ext {} s'"
    "\<forall>t ign. lookup s' t ign = without (if pending ct \<and> \<not> shnat_refuses env (ct\<lparr>pending := False\<rparr>) then {c} else {}) (lookup s t ign)"
    using kill_now_ok [OF assms(1,2), of env] assms(3) by auto
  show ?thesis
    using s' assms(3) find_lookup [OF ct_invD(1) [OF s'(2)]] find_lookup [OF ct_invD(1) [OF assms(1)]] by simp
qed

theorem kill_removes_witness:
  "\<exists>s'. kill_now sample_env 1 sample2 = Some (True, s') \<and> ip_conntrack_find sample_reply None s' = Some None"
proof -
  obtain ct where ct: "cts sample2 1 = Some ct" "pending ct" using sample2_sel(1) by blast
  have l: "lookup sample2 sample_reply None = Some (1, 1)"
    unfolding sample2_def using entered_lookup [OF ct_invD(1) [OF sample1_inv] sample1_sel(1)]
    by (simp add: is_confirmed_iff tuple_equal_defs)
  from kill_removes [OF sample2_inv ct, of sample_env] show ?thesis
    using find_lookup [OF ct_invD(1) [OF sample2_inv]] l by (fastforce simp: sample_env_def)
qed

lemma fresh_find:
  assumes i: "ct_inv ext {} s"
  shows "ip_conntrack_find t ign (fresh ct s) = ip_conntrack_find t ign s"
proof -
  have n: "cores s (brk s) = None" by (rule ref_invD(12) [OF ct_invD(4) [OF i]]) simp
  have "fst x \<noteq> brk s" if "x \<in> set (hash s h)" for x h
    using tab_invD(3) [OF ct_invD(1) [OF i], of "fst x" "snd x" h] that n by auto
  then have "chain_find (fresh ct s) (hash s h) t ign = chain_find s (hash s h) t ign" for h
    by (intro chain_find_cong) (auto simp: fresh_def cores_def)
  then show ?thesis by (simp add: ip_conntrack_find_def fresh_def hash_conntrack_def)
qed



text \<open>C26: Changing the number of buckets at run time keeps the invariant and every connection: each tuple finds the same
  connection as before, whether or not the new table could be had.\<close>

theorem set_hashsize_keeps:
  assumes i: "ct_inv ext {} s" and z: "htable_size s \<noteq> 0"
  shows "\<exists>r s'. set_hashsize env sz s = Some (r, s') \<and> ct_inv ext {} s' \<and> (r = 0 \<longleftrightarrow> sz \<noteq> 0 \<and> \<not> alloc_fails env)
    \<and> htable_size s' = (if r = 0 then sz else htable_size s)
    \<and> (\<forall>t ign. map_option (map_option fst) (ip_conntrack_find t ign s') = map_option (map_option fst) (ip_conntrack_find t ign s))"
proof -
  obtain r s' where s': "set_hashsize env sz s = Some (r, s')" "ct_inv ext {} s'" "r = 0 \<longrightarrow> htable_size s' = sz" "r \<noteq> 0 \<longrightarrow> s' = s"
    "\<forall>t ign. map_option fst (lookup s' t ign) = map_option fst (lookup s t ign)"
    using set_hashsize_ok [OF i z, of env sz] by blast
  have "r = 0 \<longleftrightarrow> sz \<noteq> 0 \<and> \<not> alloc_fails env"
    using s'(1) z by (auto simp: set_hashsize_def split: if_splits bind_splits)
  then show ?thesis using s' find_lookup [OF ct_invD(1) [OF s'(2)]] find_lookup [OF ct_invD(1) [OF i]] by auto
qed

theorem set_hashsize_keeps_witness:
  "\<exists>s' d. set_hashsize sample_env 64 sample2 = Some (0, s') \<and> htable_size s' = 64
    \<and> ip_conntrack_find sample_reply None s' = Some (Some (1, d))"
proof -
  have l: "lookup sample2 sample_reply None = Some (1, 1)"
    unfolding sample2_def using entered_lookup [OF ct_invD(1) [OF sample1_inv] sample1_sel(1)]
    by (simp add: is_confirmed_iff tuple_equal_defs)
  obtain s' where s': "set_hashsize sample_env 64 sample2 = Some (0, s')" "htable_size s' = 64"
    "map_option (map_option fst) (ip_conntrack_find sample_reply None s') = map_option (map_option fst) (ip_conntrack_find sample_reply None sample2)"
    using set_hashsize_keeps [OF sample2_inv sample2_sel(2), of sample_env 64] by (auto simp: sample_env_def)
  then show ?thesis using l find_lookup [OF ct_invD(1) [OF sample2_inv], of sample_reply None] by auto
qed

end
