(* ===== verification/Ct_Track.thy ===== *)
theory Ct_Track
  imports Ct_Core
begin

section \<open>The protocol trackers and the connection tracking hook\<close>

text \<open>
  The \<open>packet\<close>, \<open>new\<close> and \<open>error\<close> functions of the protocols (\<^verbatim>\<open>ip_conntrack_proto_tcp.c\<close>, \<^verbatim>\<open>_udp.c\<close>, \<^verbatim>\<open>_icmp.c\<close>,
  \<^verbatim>\<open>_generic.c\<close>), the lookup or creation of the connection of a packet and the hooks
  (\<^verbatim>\<open>ip_conntrack_core.c\<close>, \<^verbatim>\<open>ip_conntrack_standalone.c\<close>).

  The return values are the C integers: a verdict, or the negated verdict for an invalid packet. The function pointer
  \<open>expectfn\<close> of an expectation and the \<open>help\<close> function of a helper are parameters. The hardware NAT module is told of
  connections that became assured; that call changes nothing here and is left out.
\<close>

subsection \<open>UDP and unknown protocols\<close>

abbreviation (input) udp_timeout :: u32 where "udp_timeout \<equiv> 30 * HZ"
abbreviation (input) udp_timeout_stream :: u32 where "udp_timeout_stream \<equiv> 160 * HZ"
abbreviation (input) generic_timeout :: u32 where "generic_timeout \<equiv> 600 * HZ"
abbreviation (input) icmp_timeout :: u32 where "icmp_timeout \<equiv> 30 * HZ"

definition udp_packet :: "ct_env \<Rightarrow> nat \<Rightarrow> sk_buff \<Rightarrow> nat \<Rightarrow> ct_state \<Rightarrow> (int \<times> ct_state) option" where
  "udp_packet env c skb ctinfo s = do {
     ct \<leftarrow> cts s c;
     if test_status IPS_SEEN_REPLY_BIT ct then do {
       s1 \<leftarrow> ip_ct_refresh_acct env c ctinfo skb udp_timeout_stream True s;
       s2 \<leftarrow> upd_ct c (set_status IPS_ASSURED_BIT) s1;
       Some (1, s2)}
     else do {
       s1 \<leftarrow> ip_ct_refresh_acct env c ctinfo skb udp_timeout True s;
       Some (1, s1)}}"

definition udp_error :: "sk_buff \<Rightarrow> nat \<Rightarrow> int" where
  "udp_error skb hooknum =
     (let iph = skb_data skb; off = iph_ihl iph * 4; udplen = of_nat (skb_len skb) - of_nat off :: u32 in
      case skb_header_pointer skb off 8 of
        None \<Rightarrow> - 1
      | Some hdr \<Rightarrow>
          if udplen < ucast (ntohs (udph_len hdr)) \<or> ntohs (udph_len hdr) < 8 then - 1
          else if udph_check hdr = 0 then 1
          else if hooknum = NF_IP_PRE_ROUTING \<and> ip_summed skb \<noteq> CHECKSUM_UNNECESSARY
            \<and> csum_tcpudp_magic (iph_saddr iph) (iph_daddr iph) (ucast udplen) (ucast IPPROTO_UDP)
                (l4_csum skb off (unat udplen)) \<noteq> 0 then - 1
          else 1)"

definition generic_packet :: "ct_env \<Rightarrow> nat \<Rightarrow> sk_buff \<Rightarrow> nat \<Rightarrow> ct_state \<Rightarrow> (int \<times> ct_state) option" where
  "generic_packet env c skb ctinfo s = do {
     s1 \<leftarrow> ip_ct_refresh_acct env c ctinfo skb generic_timeout True s;
     Some (1, s1)}"

subsection \<open>ICMP\<close>

definition icmp_packet :: "ct_env \<Rightarrow> nat \<Rightarrow> sk_buff \<Rightarrow> nat \<Rightarrow> ct_state \<Rightarrow> (int \<times> ct_state) option" where
  "icmp_packet env c skb ctinfo s = do {
     ct \<leftarrow> cts s c;
     if CTINFO2DIR ctinfo = IP_CT_DIR_REPLY then do {
       s1 \<leftarrow> upd_ct c (\<lambda>ct. ct\<lparr>icmp_count := icmp_count ct - 1\<rparr>) s;
       if icmp_count ct - 1 = 0 then do { (was, s2) \<leftarrow> kill_now env c s1; Some (1, s2) }
       else Some (1, s1)}
     else do {
       s1 \<leftarrow> upd_ct c (\<lambda>ct. ct\<lparr>icmp_count := icmp_count ct + 1\<rparr>) s;
       s2 \<leftarrow> ip_ct_refresh_acct env c ctinfo skb icmp_timeout True s1;
       Some (1, s2)}}"

text \<open>\<open>valid_new\<close>: echo 8, timestamp 13, information request 15, address mask request 17.\<close>

definition icmp_new :: "ip_conntrack \<Rightarrow> ip_conntrack option" where
  "icmp_new ct =
     (if dst_icmp_type (tuple_at ct IP_CT_DIR_ORIGINAL) \<notin> {8, 13, 15, 17} then None
      else Some (ct\<lparr>icmp_count := 0\<rparr>))"

definition icmp_error_message :: "sk_buff \<Rightarrow> nat \<Rightarrow> ct_state \<Rightarrow> (int \<times> sk_buff \<times> ct_state) option" where
  "icmp_error_message skb hooknum s =
     (let off = iph_ihl (skb_data skb) * 4 in
      case skb_header_pointer skb off 28 of
        None \<Rightarrow> Some (- 1, skb, s)
      | Some inside \<Rightarrow>
        let ip = drop 8 inside; innerproto = l4_find (iph_protocol ip); dataoff = off + 8 + iph_ihl ip * 4 in
        if iph_frag_off ip AND htons IP_OFFSET \<noteq> 0 then Some (- 1, skb, s)
        else case ip_ct_get_tuple ip skb dataoff innerproto of
          None \<Rightarrow> Some (- 1, skb, s)
        | Some origtuple \<Rightarrow> (case ip_ct_invert_tuple origtuple innerproto of
            None \<Rightarrow> Some (- 1, skb, s)
          | Some innertuple \<Rightarrow> do {
              (h, s1) \<leftarrow> ip_conntrack_find_get innertuple None s;
              case h of
                Some (c, d) \<Rightarrow> Some (- 1, skb\<lparr>nfct := Some c,
                  nfctinfo := (if d = IP_CT_DIR_REPLY then IP_CT_RELATED + IP_CT_IS_REPLY else IP_CT_RELATED)\<rparr>, s1)
              | None \<Rightarrow>
                  if hooknum \<noteq> NF_IP_LOCAL_OUT then Some (- 1, skb, s1)
                  else do {
                    (h, s2) \<leftarrow> ip_conntrack_find_get origtuple None s1;
                    case h of
                      None \<Rightarrow> Some (- 1, skb, s2)
                    | Some (c, d) \<Rightarrow> Some (- 1, skb\<lparr>nfct := Some c,
                        nfctinfo := (if d \<noteq> IP_CT_DIR_REPLY then IP_CT_RELATED + IP_CT_IS_REPLY else IP_CT_RELATED)\<rparr>, s2)}}))"

text \<open>\<open>__skb_checksum_complete\<close> with \<open>skb->csum\<close> set to 0 before: the sum, and the buffer.\<close>

definition skb_checksum_complete :: "sk_buff \<Rightarrow> u16 \<times> sk_buff" where
  "skb_checksum_complete skb =
     (let sm = ucast (csum_fold (csum_partial (skb_data skb) (csum skb))) :: u16 in
      (sm, if sm = 0 then skb\<lparr>ip_summed := CHECKSUM_UNNECESSARY\<rparr> else skb))"

definition icmp_checksum_ok :: "sk_buff \<Rightarrow> nat \<Rightarrow> bool \<times> sk_buff" where
  "icmp_checksum_ok skb hooknum =
     (if hooknum \<noteq> NF_IP_PRE_ROUTING then (True, skb)
      else if ip_summed skb = CHECKSUM_HW \<and> (ucast (csum_fold (csum skb)) :: u16) = 0 then (True, skb)
      else if ip_summed skb = CHECKSUM_HW \<or> ip_summed skb = CHECKSUM_NONE then
        (let (sm, skb1) = skb_checksum_complete (skb\<lparr>csum := 0\<rparr>) in (sm = 0, skb1))
      else (True, skb))"

definition icmp_error :: "sk_buff \<Rightarrow> nat \<Rightarrow> ct_state \<Rightarrow> (int \<times> sk_buff \<times> ct_state) option" where
  "icmp_error skb hooknum s =
     (case skb_header_pointer skb (iph_ihl (skb_data skb) * 4) 8 of
        None \<Rightarrow> Some (- 1, skb, s)
      | Some icmph \<Rightarrow>
        let (ok, skb1) = icmp_checksum_ok skb hooknum in
        if \<not> ok then Some (- 1, skb1, s)
        else if 18 < icmph_type icmph then Some (- 1, skb1, s)
        else if icmph_type icmph \<notin> {3, 4, 11, 12, 5} then Some (1, skb1, s)
        else icmp_error_message skb1 hooknum s)"

subsection \<open>TCP\<close>

definition tcp_ignored :: "sk_buff \<Rightarrow> u8 list \<Rightarrow> u8 \<Rightarrow> tcp_bit_set \<Rightarrow> ip_ct_tcp \<Rightarrow> ip_ct_tcp" where
  "tcp_ignored skb th d idx t = t\<lparr>last_index := idx, last_dir := d, last_seq := ntohl (tcph_seq th),
     last_end := segment_seq_plus_len (ntohl (tcph_seq th)) (skb_len skb) (skb_data skb) th\<rparr>"

text \<open>The part under \<open>in_window\<close>: the new state, the flag of the side that closes, and the timeout.\<close>

definition tcp_enter_state :: "u8 \<Rightarrow> tcp_bit_set \<Rightarrow> tcp_conntrack \<Rightarrow> ip_ct_tcp \<Rightarrow> ip_ct_tcp" where
  "tcp_enter_state d idx new t =
     (let t1 = t\<lparr>last_index := idx, tstate := new\<rparr> in
      if tstate t \<noteq> new \<and> (new = sFW \<or> new = sCL)
      then set_seen t1 d ((seen_at t1 d)\<lparr>tflags := tflags (seen_at t1 d) OR IP_CT_TCP_FLAG_CLOSE_INIT\<rparr>) (seen_at t1 (other_dir d))
      else t1)"

definition tcp_timeout :: "tcp_sysctl \<Rightarrow> ip_ct_tcp \<Rightarrow> tcp_conntrack \<Rightarrow> u32 option" where
  "tcp_timeout cfg t new = do {
     tmo \<leftarrow> timeout_of cfg new;
     Some (if max_retrans cfg \<le> uint (retrans t) \<and> timeout_max_retrans cfg < tmo then timeout_max_retrans cfg else tmo)}"

text \<open>\<open>goto in_window\<close> for a reset that answers a segment that was let through unchecked.\<close>

definition tcp_rst_answers :: "ip_conntrack \<Rightarrow> tcp_bit_set \<Rightarrow> u8 list \<Rightarrow> bool" where
  "tcp_rst_answers ct idx th \<longleftrightarrow> idx = TCP_RST_SET
     \<and> (test_status IPS_SEEN_REPLY_BIT ct \<and> last_index (tcp ct) = TCP_SYN_SET
        \<or> \<not> test_status IPS_ASSURED_BIT ct \<and> last_index (tcp ct) = TCP_ACK_SET)
     \<and> ntohl (tcph_ack_seq th) = last_end (tcp ct)"

text \<open>The window check as this configuration has it: not for segments with RST or FIN.\<close>

definition tcp_window_check :: "ct_env \<Rightarrow> ip_conntrack \<Rightarrow> u8 \<Rightarrow> tcp_bit_set \<Rightarrow> tcp_conntrack \<Rightarrow> sk_buff \<Rightarrow> u8 list
    \<Rightarrow> (int \<times> ip_ct_tcp) option" where
  "tcp_window_check env ct d idx new skb th =
     (if new = sCL \<and> tcp_rst_answers ct idx th then Some (1, tcp ct)
      else if tcph_rst th \<or> tcph_fin th then Some (1, tcp ct)
      else tcp_in_window (tcp_cfg env) (tcp ct) d idx skb (skb_data skb) th)"

text \<open>A valid acknowledgement in \<open>ESTABLISHED\<close> after \<open>SYN_RECV\<close>, or a valid answer for a picked up connection.\<close>

definition tcp_assures :: "ip_conntrack \<Rightarrow> tcp_conntrack \<Rightarrow> tcp_conntrack \<Rightarrow> bool" where
  "tcp_assures ct old new \<longleftrightarrow> test_status IPS_SEEN_REPLY_BIT ct \<and> \<not> test_status IPS_ASSURED_BIT ct \<and> (old = sSR \<or> old = sES) \<and> new = sES"

definition tcp_packet :: "ct_env \<Rightarrow> nat \<Rightarrow> sk_buff \<Rightarrow> nat \<Rightarrow> ct_state \<Rightarrow> (int \<times> ct_state) option" where
  "tcp_packet env c skb ctinfo s = do {
     th \<leftarrow> skb_header_pointer skb (iph_ihl (skb_data skb) * 4) 20;
     ct \<leftarrow> cts s c;
     let t = tcp ct;
     let d = CTINFO2DIR ctinfo;
     let idx = get_conntrack_index th;
     let old = tstate t;
     let new = tcp_next d idx old;
     if new = sIG then
       (if idx = TCP_SYNACK_SET \<and> last_index t = TCP_SYN_SET \<and> last_dir t \<noteq> d \<and> ntohl (tcph_ack_seq th) = last_end t
        then do { (was, s1) \<leftarrow> kill_now env c s; Some (0, s1) }
        else do { s1 \<leftarrow> upd_ct c (\<lambda>ct. ct\<lparr>tcp := tcp_ignored skb th d idx (tcp ct)\<rparr>) s; Some (1, s1) })
     else if new = sIV then Some (- 1, s)
     else if new = sSS \<and> \<not> old < sTW then
       (if tflags (seen_at t d) AND IP_CT_TCP_FLAG_CLOSE_INIT \<noteq> 0 \<or> after (ntohl (tcph_seq th)) (td_end (seen_at t d))
        then do { (was, s1) \<leftarrow> kill_now env c s; Some (- 4, s1) }
        else Some (- 1, s))
     else do {
       (ok, t1) \<leftarrow> tcp_window_check env ct d idx new skb th;
       s1 \<leftarrow> upd_ct c (\<lambda>ct. ct\<lparr>tcp := t1\<rparr>) s;
       if ok = 0 then Some (- 1, s1)
       else do {
         s2 \<leftarrow> upd_ct c (\<lambda>ct. ct\<lparr>tcp := tcp_enter_state d idx new t1\<rparr>) s1;
         tmo \<leftarrow> tcp_timeout (tcp_cfg env) (tcp_enter_state d idx new t1) new;
         if \<not> test_status IPS_SEEN_REPLY_BIT ct \<and> tcph_rst th then do { (was, s3) \<leftarrow> kill_now env c s2; Some (1, s3) }
         else do {
           s3 \<leftarrow> (if tcp_assures ct old new then upd_ct c (set_status IPS_ASSURED_BIT) s2 else Some s2);
           s4 \<leftarrow> ip_ct_refresh_acct env c ctinfo skb tmo True s3;
           Some (1, s4)}}}}"

text \<open>\<open>tcp_new\<close>: \<open>Some None\<close> is the return value 0.\<close>

definition tcp_new_seen :: "tcp_sysctl \<Rightarrow> sk_buff \<Rightarrow> u8 list \<Rightarrow> tcp_conntrack \<Rightarrow> ip_ct_tcp_state \<Rightarrow> ip_ct_tcp_state
    \<Rightarrow> (ip_ct_tcp_state \<times> ip_ct_tcp_state) option option" where
  "tcp_new_seen cfg skb th new s0 s1 =
     (let iph = skb_data skb; e = segment_seq_plus_len (ntohl (tcph_seq th)) (skb_len skb) iph th;
          w = (if ntohs (tcph_window th) = 0 then 1 else ucast (ntohs (tcph_window th))) :: u32 in
      if new = sSS then do {
        s0' \<leftarrow> tcp_options skb iph th (s0\<lparr>td_end := e, td_maxwin := w, td_maxend := e\<rparr>);
        Some (Some (s0'\<lparr>loose := 0\<rparr>, s1\<lparr>tflags := 0, loose := 0\<rparr>))}
      else if loose_max cfg = 0 then Some None
      else Some (Some (s0\<lparr>td_end := e, td_maxwin := w, td_maxend := e + w, td_scale := 0, tflags := IP_CT_TCP_FLAG_SACK_PERM,
                          loose := of_int (loose_max cfg)\<rparr>,
                       s1\<lparr>tflags := IP_CT_TCP_FLAG_SACK_PERM, loose := of_int (loose_max cfg)\<rparr>)))"

definition tcp_new :: "tcp_sysctl \<Rightarrow> sk_buff \<Rightarrow> ip_conntrack \<Rightarrow> ip_conntrack option option" where
  "tcp_new cfg skb ct = do {
     th \<leftarrow> skb_header_pointer skb (iph_ihl (skb_data skb) * 4) 20;
     let new = tcp_next 0 (get_conntrack_index th) sNO;
     if \<not> new < sIV then Some None
     else do {
       r \<leftarrow> tcp_new_seen cfg skb th new (fst (seen (tcp ct))) (snd (seen (tcp ct)));
       case r of
         None \<Rightarrow> Some None
       | Some (s0, s1) \<Rightarrow> Some (Some (ct\<lparr>tcp := (tcp ct)\<lparr>
           seen := (s0, s1\<lparr>td_end := 0, td_maxend := 0, td_maxwin := 1, td_scale := 0\<rparr>),
           tstate := sNO, last_index := TCP_NONE_SET\<rparr>\<rparr>))}}"

subsection \<open>Dispatch\<close>

text \<open>The functions behind \<open>ip_ct_protos[protocol]\<close>; the generic protocol has no \<open>error\<close> function.\<close>

definition proto_packet :: "u8 \<Rightarrow> ct_env \<Rightarrow> nat \<Rightarrow> sk_buff \<Rightarrow> nat \<Rightarrow> ct_state \<Rightarrow> (int \<times> ct_state) option" where
  "proto_packet p = (if p = IPPROTO_TCP then tcp_packet else if p = IPPROTO_UDP then udp_packet
     else if p = IPPROTO_ICMP then icmp_packet else generic_packet)"

definition proto_new :: "u8 \<Rightarrow> tcp_sysctl \<Rightarrow> sk_buff \<Rightarrow> ip_conntrack \<Rightarrow> ip_conntrack option option" where
  "proto_new p cfg skb ct = (if p = IPPROTO_TCP then tcp_new cfg skb ct
     else if p = IPPROTO_ICMP then Some (icmp_new ct) else Some (Some ct))"

definition proto_error :: "u8 \<Rightarrow> sk_buff \<Rightarrow> nat \<Rightarrow> ct_state \<Rightarrow> (int \<times> sk_buff \<times> ct_state) option" where
  "proto_error p skb hooknum s =
     (if p = IPPROTO_TCP then Some (tcp_error skb hooknum, skb, s)
      else if p = IPPROTO_UDP then Some (udp_error skb hooknum, skb, s)
      else if p = IPPROTO_ICMP then icmp_error skb hooknum s
      else Some (1, skb, s))"

subsection \<open>The connection of a packet\<close>

datatype ct_ptr = CtNull | CtErr | CtPtr nat u8

type_synonym expect_fn = "nat \<Rightarrow> ip_conntrack_expect \<Rightarrow> ct_state \<Rightarrow> ct_state option"

text \<open>What \<open>init_conntrack\<close> does with the lock held: the expectation or the helper of the new connection.\<close>

definition adopt :: "nat \<Rightarrow> ip_conntrack_tuple \<Rightarrow> ip_conntrack_tuple \<Rightarrow> ct_state \<Rightarrow> (nat option \<times> ct_state) option" where
  "adopt c tuple repl_tuple s = do {
     (e, s1) \<leftarrow> find_expectation tuple s;
     s2 \<leftarrow> (case e of
       Some e \<Rightarrow> do {
         x \<leftarrow> exps s1 e;
         m \<leftarrow> cts s1 (exp_master x);
         s2 \<leftarrow> upd_ct c (\<lambda>ct. set_status IPS_EXPECTED_BIT
                 (ct\<lparr>master := Some (exp_master x), ct_mark := ct_mark m, masq_index := masq_index m\<rparr>)) s1;
         nf_conntrack_get (exp_master x) s2}
     | None \<Rightarrow> do {
         h \<leftarrow> ip_conntrack_helper_find repl_tuple s1;
         upd_ct c (\<lambda>ct. ct\<lparr>helper := h\<rparr>) s1});
     Some (e, s2\<lparr>unconfirmed := c # unconfirmed s2\<rparr>)}"

definition init_conntrack :: "ct_env \<Rightarrow> expect_fn \<Rightarrow> ip_conntrack_tuple \<Rightarrow> u8 \<Rightarrow> sk_buff \<Rightarrow> ct_state
    \<Rightarrow> (ct_ptr \<times> ct_state) option" where
  "init_conntrack env expectfn tuple p skb s =
     (case ip_ct_invert_tuple tuple (l4_find p) of
        None \<Rightarrow> Some (CtNull, s)
      | Some repl_tuple \<Rightarrow> do {
          (a, s1) \<leftarrow> ip_conntrack_alloc env tuple repl_tuple s;
          case a of
            None \<Rightarrow> Some (CtErr, s1)
          | Some c \<Rightarrow> do {
              ct \<leftarrow> cts s1 c;
              r \<leftarrow> proto_new p (tcp_cfg env) skb ct;
              case r of
                None \<Rightarrow> do { s2 \<leftarrow> ip_conntrack_free c s1; Some (CtNull, s2) }
              | Some ct' \<Rightarrow> do {
                  (e, s3) \<leftarrow> adopt c tuple repl_tuple (s1\<lparr>cts := (cts s1)(c \<mapsto> ct')\<rparr>);
                  s5 \<leftarrow> (case e of
                    None \<Rightarrow> Some s3
                  | Some e \<Rightarrow> do {
                      x \<leftarrow> exps s3 e;
                      s4 \<leftarrow> (if exp_follows x then expectfn c x s3 else Some s3);
                      ip_conntrack_expect_put e s4});
                  Some (CtPtr c IP_CT_DIR_ORIGINAL, s5)}}})"

definition packet_ctinfo :: "ip_conntrack \<Rightarrow> u8 \<Rightarrow> nat" where
  "packet_ctinfo ct d =
     (if d = IP_CT_DIR_REPLY then IP_CT_ESTABLISHED + IP_CT_IS_REPLY
      else if test_status IPS_SEEN_REPLY_BIT ct then IP_CT_ESTABLISHED
      else if test_status IPS_EXPECTED_BIT ct then IP_CT_RELATED
      else IP_CT_NEW)"

text \<open>The result is the connection with the direction of the packet; the buffer then refers to it.\<close>

definition resolve_normal_ct :: "ct_env \<Rightarrow> expect_fn \<Rightarrow> sk_buff \<Rightarrow> u8 \<Rightarrow> ct_state \<Rightarrow> (ct_ptr \<times> sk_buff \<times> ct_state) option" where
  "resolve_normal_ct env expectfn skb p s =
     (case ip_ct_get_tuple (skb_data skb) skb (iph_ihl (skb_data skb) * 4) (l4_find p) of
        None \<Rightarrow> Some (CtNull, skb, s)
      | Some tuple \<Rightarrow> do {
          (h, s1) \<leftarrow> ip_conntrack_find_get tuple None s;
          (r, s2) \<leftarrow> (case h of Some (c, d) \<Rightarrow> Some (CtPtr c d, s1) | None \<Rightarrow> init_conntrack env expectfn tuple p skb s1);
          case r of
            CtPtr c d \<Rightarrow> do {
              ct \<leftarrow> cts s2 c;
              Some (r, skb\<lparr>nfct := Some c, nfctinfo := packet_ctinfo ct d\<rparr>, s2)}
          | _ \<Rightarrow> Some (r, skb, s2)})"

text \<open>The part of \<open>ip_conntrack_in\<close> behind \<open>resolve_normal_ct\<close>.\<close>

definition track_packet :: "ct_env \<Rightarrow> u8 \<Rightarrow> nat \<Rightarrow> u8 \<Rightarrow> sk_buff \<Rightarrow> ct_state \<Rightarrow> (u32 \<times> sk_buff \<times> ct_state) option" where
  "track_packet env p c d skb s = do {
     (ret, s3) \<leftarrow> proto_packet p env c skb (nfctinfo skb) s;
     if ret < 0 then do {
       s4 \<leftarrow> ip_conntrack_put c s3;
       Some (of_int (- ret), skb\<lparr>nfct := None\<rparr>, s4)}
     else do {
       s4 \<leftarrow> (if d = IP_CT_DIR_REPLY then upd_ct c (set_status IPS_SEEN_REPLY_BIT) s3 else Some s3);
       Some (of_int ret, skb, s4)}}"

definition ip_conntrack_in :: "ct_env \<Rightarrow> expect_fn \<Rightarrow> nat \<Rightarrow> sk_buff \<Rightarrow> ct_state \<Rightarrow> (u32 \<times> sk_buff \<times> ct_state) option" where
  "ip_conntrack_in env expectfn hooknum skb s =
     (let p = iph_protocol (skb_data skb) in
      if nfct skb \<noteq> None then Some (NF_ACCEPT, skb, s)
      else if iph_frag_off (skb_data skb) AND htons IP_OFFSET \<noteq> 0 then Some (NF_DROP, skb, s)
      else do {
        (ret, skb1, s1) \<leftarrow> proto_error p skb hooknum s;
        if ret \<le> 0 then Some (of_int (- ret), skb1, s1)
        else do {
          (r, skb2, s2) \<leftarrow> resolve_normal_ct env expectfn skb1 p s1;
          case r of
            CtNull \<Rightarrow> Some (NF_ACCEPT, skb2, s2)
          | CtErr \<Rightarrow> Some (NF_DROP, skb2, s2)
          | CtPtr c d \<Rightarrow> track_packet env p c d skb2 s2}})"

subsection \<open>Hooks\<close>

definition ip_conntrack_local :: "ct_env \<Rightarrow> expect_fn \<Rightarrow> nat \<Rightarrow> sk_buff \<Rightarrow> ct_state \<Rightarrow> (u32 \<times> sk_buff \<times> ct_state) option" where
  "ip_conntrack_local env expectfn hooknum skb s =
     (if skb_len skb < 20 \<or> iph_ihl (skb_data skb) * 4 < 20 then Some (NF_ACCEPT, skb, s)
      else ip_conntrack_in env expectfn hooknum skb s)"

text \<open>\<open>helpfn\<close> stands for the functions \<open>help\<close> of the helpers.\<close>

definition ip_conntrack_help :: "(nat \<Rightarrow> sk_buff \<Rightarrow> nat \<Rightarrow> nat \<Rightarrow> ct_state \<Rightarrow> (u32 \<times> sk_buff \<times> ct_state) option) \<Rightarrow> sk_buff \<Rightarrow> ct_state
    \<Rightarrow> (u32 \<times> sk_buff \<times> ct_state) option" where
  "ip_conntrack_help helpfn skb s =
     (case nfct skb of
        None \<Rightarrow> Some (NF_ACCEPT, skb, s)
      | Some c \<Rightarrow> do {
          ct \<leftarrow> cts s c;
          case helper ct of
            None \<Rightarrow> Some (NF_ACCEPT, skb, s)
          | Some h \<Rightarrow> helpfn h skb c (nfctinfo skb) s})"

definition nf_reset :: "sk_buff \<Rightarrow> ct_state \<Rightarrow> (sk_buff \<times> ct_state) option" where
  "nf_reset skb s =
     (case nfct skb of
        None \<Rightarrow> Some (skb, s)
      | Some c \<Rightarrow> do { s1 \<leftarrow> ip_conntrack_put c s; Some (skb\<lparr>nfct := None\<rparr>, s1) })"

end
