(* ===== verification/Ct_Trackers.thy ===== *)
theory Ct_Trackers
  imports Ct_Alloc Ct_Track
begin

section \<open>The tracking hook keeps the table\<close>

text \<open>
  The protocol trackers change a connection only in ways the table does not see, or take it out; the hook
  therefore keeps \<open>ct_inv\<close>, leaves the packet as it is and hands it exactly one reference.
\<close>

subsection \<open>Trackers\<close>

text \<open>The connection \<open>c\<close> may have left the table, nothing else has changed for lookups.\<close>

definition tracked :: "(nat \<Rightarrow> nat) \<Rightarrow> nat \<Rightarrow> ct_state \<Rightarrow> ct_state \<Rightarrow> bool" where
  "tracked ext c s s' \<longleftrightarrow> ct_inv ext {} s' \<and> same_sizes s s'
     \<and> (\<exists>gone. gone \<subseteq> {c} \<and> (\<forall>t ign. lookup s' t ign = without gone (lookup s t ign)))"

lemma without_without: "without g (without g' r) = without (g \<union> g') r"
  by (cases r) (auto simp: without_def)

lemma tracked_refl: "ct_inv ext {} s \<Longrightarrow> tracked ext c s s"
  unfolding tracked_def by (intro conjI exI [of _ "{}"]) simp_all

lemma tracked_trans: "tracked ext c s s' \<Longrightarrow> tracked ext c s' s'' \<Longrightarrow> tracked ext c s s''"
  unfolding tracked_def using same_sizes_trans [of s s' s'']
  by (elim conjE exE, intro conjI) (simp_all, metis Un_least without_without)

lemma tracked_inv: "tracked ext c s s' \<Longrightarrow> ct_inv ext {} s'"
  by (simp add: tracked_def)

text \<open>Updates that leave the core of a connection alone, up to the status bits the table does not read.\<close>

definition mild :: "(ip_conntrack \<Rightarrow> ip_conntrack) \<Rightarrow> bool" where
  "mild f \<longleftrightarrow> (\<forall>ct. tuplehash (f ct) = tuplehash ct \<and> master (f ct) = master ct \<and> ct_use (f ct) = ct_use ct
     \<and> expecting (f ct) = expecting ct \<and> pending (f ct) = pending ct \<and> bit (status (f ct)) 3 = bit (status ct) 3
     \<and> status (f ct) AND IPS_NAT_DONE_MASK = status ct AND IPS_NAT_DONE_MASK
     \<and> (tcp_wf (tcp ct) \<longrightarrow> tcp_wf (tcp (f ct))))"

lemma set_bit_done:
  assumes "n \<noteq> 7" "n \<noteq> 8"
  shows "set_bit n w AND 0x180 = w AND (0x180 :: u32)"
proof -
  have e: "(0x180 :: u32) = set_bit 7 (set_bit 8 0)" by code_simp
  have b: "bit (0x180 :: u32) i \<longleftrightarrow> i = 7 \<or> i = 8" for i unfolding e bit_set_bit_iff by auto
  show ?thesis
  proof (rule bit_eqI)
    fix i assume "possible_bit TYPE(u32) i"
    show "bit (set_bit n w AND 0x180) i = bit (w AND 0x180) i"
      unfolding bit_and_iff b using assms by (auto simp: bit_simps)
  qed
qed

lemma mild_simps [intro, simp]:
  "n \<noteq> 3 \<Longrightarrow> n \<noteq> 7 \<Longrightarrow> n \<noteq> 8 \<Longrightarrow> mild (set_status n)"
  "(\<And>t. tcp_wf t \<Longrightarrow> tcp_wf (f t)) \<Longrightarrow> mild (\<lambda>ct. ct\<lparr>tcp := f (tcp ct)\<rparr>)" "mild (\<lambda>ct. ct\<lparr>icmp_count := g ct\<rparr>)" "mild (\<lambda>ct. ct\<lparr>helper := h\<rparr>)" "tcp_wf t \<Longrightarrow> mild (\<lambda>ct. ct\<lparr>tcp := t\<rparr>)"
  by (auto simp: mild_def set_status_def bit_simps set_bit_done)

lemma mild_refresh [simp]:
  "mild (\<lambda>ct. let ct1 = (if \<not> is_confirmed ct then ct\<lparr>expires := x\<rparr> else if pending ct then ct\<lparr>expires := y\<rparr> else ct)
     in if a then bump_acct d b ct1 else ct1)"
  by (simp add: mild_def Let_def bump_acct_def)

lemma upd_tracked:
  assumes i: "ct_inv ext {} s" and c: "0 < ext c" and f: "mild f"
  shows "\<exists>ct s'. cts s c = Some ct \<and> upd_ct c f s = Some s' \<and> tracked ext c s s' \<and> cts s' c = Some (f ct) \<and> (\<forall>j. j \<noteq> c \<longrightarrow> cts s' j = cts s j)
    \<and> hash s' = hash s \<and> unconfirmed s' = unconfirmed s"
proof -
  obtain ct where ct: "cts s c = Some ct" using ct_inv_live [OF i c] by blast
  have "pending ct \<Longrightarrow> linked s c 0" using tab_invD(6) [OF ct_invD(1) [OF i], of c "core ct"] ct by (simp add: cores_def)
  then have "harmless s c ct (f ct)" using f by (simp add: harmless_def mild_def)
  note u = ct_inv_upd [OF i ct this]
  have "tracked ext c s (s\<lparr>cts := (cts s)(c \<mapsto> f ct)\<rparr>)"
    unfolding tracked_def using u by (intro conjI exI [of _ "{}"]) (simp_all add: same_sizes_def)
  then show ?thesis using ct by (simp add: upd_ct_def)
qed

lemma refresh_tracked:
  assumes i: "ct_inv ext {} s" and c: "0 < ext c"
  shows "\<exists>s'. ip_ct_refresh_acct env c ctinfo skb extra a s = Some s' \<and> tracked ext c s s'"
  unfolding ip_ct_refresh_acct_def using upd_tracked [OF i c mild_refresh] by blast

lemma kill_tracked:
  assumes i: "ct_inv ext {} s" and c: "0 < ext c"
  shows "\<exists>was s'. kill_now env c s = Some (was, s') \<and> tracked ext c s s'"
proof -
  obtain ct where ct: "cts s c = Some ct" using ct_inv_live [OF i c] by blast
  let ?g = "if pending ct \<and> \<not> shnat_refuses env (ct\<lparr>pending := False\<rparr>) then {c} else {}"
  obtain s' where s': "kill_now env c s = Some (pending ct, s')" "ct_inv ext {} s'"
    "\<forall>t ign. lookup s' t ign = without ?g (lookup s t ign)" "same_sizes s s'"
    using kill_now_ok [OF i ct, of env] by blast
  have "?g \<subseteq> {c}" by simp
  then have "tracked ext c s s'" unfolding tracked_def using s'(2-4) by blast
  then show ?thesis using s'(1) by blast
qed

lemma udp_packet_ok:
  assumes i: "ct_inv ext {} s" and c: "0 < ext c"
  shows "\<exists>s'. udp_packet env c skb ctinfo s = Some (1, s') \<and> tracked ext c s s'"
proof -
  obtain ct where ct: "cts s c = Some ct" using ct_inv_live [OF i c] by blast
  obtain s1 where s1: "ip_ct_refresh_acct env c ctinfo skb (if test_status IPS_SEEN_REPLY_BIT ct then udp_timeout_stream else udp_timeout) True s = Some s1"
    "tracked ext c s s1" using refresh_tracked [OF i c] by blast
  show ?thesis
  proof (cases "test_status IPS_SEEN_REPLY_BIT ct")
    case True
    obtain s2 where "upd_ct c (set_status IPS_ASSURED_BIT) s1 = Some s2" "tracked ext c s1 s2"
      using upd_tracked [OF tracked_inv [OF s1(2)] c, of "set_status IPS_ASSURED_BIT"] by auto
    then show ?thesis using True ct s1 tracked_trans by (auto simp: udp_packet_def)
  next
    case False
    then show ?thesis using ct s1 by (simp add: udp_packet_def)
  qed
qed

lemma generic_packet_ok:
  assumes "ct_inv ext {} s" "0 < ext c"
  shows "\<exists>s'. generic_packet env c skb ctinfo s = Some (1, s') \<and> tracked ext c s s'"
proof -
  obtain s' where "ip_ct_refresh_acct env c ctinfo skb generic_timeout True s = Some s'" "tracked ext c s s'"
    using refresh_tracked [OF assms] by blast
  then show ?thesis by (simp add: generic_packet_def)
qed

lemma icmp_packet_ok:
  assumes i: "ct_inv ext {} s" and c: "0 < ext c"
  shows "\<exists>s'. icmp_packet env c skb ctinfo s = Some (1, s') \<and> tracked ext c s s'"
proof -
  define f :: "ip_conntrack \<Rightarrow> ip_conntrack" where "f = (\<lambda>ct. ct\<lparr>icmp_count := (if CTINFO2DIR ctinfo = IP_CT_DIR_REPLY then icmp_count ct - 1 else icmp_count ct + 1)\<rparr>)"
  have "mild f" unfolding f_def by (rule mild_simps(3))
  then obtain ct s1 where s1: "cts s c = Some ct" "upd_ct c f s = Some s1" "tracked ext c s s1" using upd_tracked [OF i c] by blast
  note i1 = tracked_inv [OF s1(3)]
  obtain was s2 where s2: "kill_now env c s1 = Some (was, s2)" "tracked ext c s1 s2" using kill_tracked [OF i1 c] by blast
  obtain s3 where s3: "ip_ct_refresh_acct env c ctinfo skb icmp_timeout True s1 = Some s3" "tracked ext c s1 s3"
    using refresh_tracked [OF i1 c] by blast
  show ?thesis
    using s1 s2 s3 tracked_trans [OF s1(3)] by (cases "CTINFO2DIR ctinfo = IP_CT_DIR_REPLY") (auto simp: icmp_packet_def f_def)
qed

text \<open>Well-formed options: every option lies in the option area of \<open>n\<close> bytes and in the packet. For others the loops of
  \<open>tcp_options\<close> and \<open>tcp_sack\<close> may read past the packet.\<close>

function opts_wf :: "u8 list \<Rightarrow> nat \<Rightarrow> nat \<Rightarrow> bool" where
  "opts_wf b p n =
     (if n = 0 then True
      else if length b < p + n then False
      else if b ! p = TCPOPT_EOL then True
      else if b ! p = TCPOPT_NOP then opts_wf b (Suc p) (n - 1)
      else if n < 2 then False
      else if b ! Suc p < 2 then True
      else if n < unat (b ! Suc p) then False
      else opts_wf b (p + unat (b ! Suc p)) (n - unat (b ! Suc p)))"
  by pat_completeness auto

termination
  by (relation "measure (\<lambda>(b, p, n). n)") (auto simp: word_less_nat_alt)

declare opts_wf.simps [simp del]

lemma opts_wf_cases:
  assumes "opts_wf b p n"
  obtains "n = 0" | "0 < n" "peek b p = Some TCPOPT_EOL"
    | m where "0 < n" "peek b p = Some TCPOPT_NOP" "opts_wf b (Suc p) m" "m < n" "int n - 1 = int m"
    | q z where "0 < n" "peek b p = Some q" "q \<noteq> TCPOPT_EOL" "q \<noteq> TCPOPT_NOP" "peek b (Suc p) = Some z" "z < 2"
    | q z m where "0 < n" "peek b p = Some q" "q \<noteq> TCPOPT_EOL" "q \<noteq> TCPOPT_NOP" "peek b (Suc p) = Some z" "\<not> z < 2"
        "p + unat z \<le> length b" "opts_wf b (p + unat z) m" "m < n" "int n - uint z = int m" "\<not> int n < uint z"
proof (cases "n = 0")
  case False
  note w = assms [unfolded opts_wf.simps [of b p n]]
  have a: "p + n \<le> length b" using w False by (simp split: if_splits)
  have p: "peek b p = Some (b ! p)" using a False by (simp add: peek_def)
  have n: "0 < n" "n - 1 < n" "int n - 1 = int (n - 1)" using False by auto
  show thesis
  proof (cases "b ! p = TCPOPT_EOL \<or> b ! p = TCPOPT_NOP")
    case True
    then show thesis using w a n p False that(2) that(3) [of "n - 1"] by (auto split: if_splits)
  next
    case nop: False
    let ?z = "b ! Suc p"
    have m: "2 \<le> n" "\<not> ?z < 2 \<Longrightarrow> unat ?z \<le> n \<and> opts_wf b (p + unat ?z) (n - unat ?z)"
      using w a False nop by (auto split: if_splits)
    have q: "peek b (Suc p) = Some ?z" using a m(1) by (simp add: peek_def)
    show thesis
    proof (cases "?z < 2")
      case True
      then show thesis using that(4) n(1) p q nop by blast
    next
      case z: False
      have u: "uint ?z = int (unat ?z)" by simp
      have le: "unat ?z \<le> n" "2 \<le> unat ?z" using m(2) [OF z] z by (simp_all add: word_less_nat_alt)
      have d: "int n - uint ?z = int (n - unat ?z)" "\<not> int n < uint ?z" unfolding u using le(1) by linarith+
      have l: "p + unat ?z \<le> length b" "n - unat ?z < n" using a le n(1) by linarith+
      show thesis by (rule that(5) [OF n(1) p _ _ q z l(1) conjunct2 [OF m(2) [OF z]] l(2) d]) (use nop in blast)+
    qed
  qed
qed (use that(1) in blast)

lemma opts_wf_read: "opts_wf b p n \<Longrightarrow> tcp_options_loop b p (int n) st \<noteq> None"
proof (induction n arbitrary: p st rule: less_induct)
  case (less n p st)
  from less.prems show ?case
  proof (cases rule: opts_wf_cases)
    case (3 m)
    then show ?thesis using less.IH [of m "Suc p" st] by (simp add: tcp_options_loop.simps [of b p])
  next
    case (5 q z m)
    have w: "peek b (Suc (Suc p)) \<noteq> None" if "z = TCPOLEN_WINDOW" using 5(7) that by (simp add: peek_def)
    note IH = less.IH [OF 5(9,8)]
    have n: "\<not> int n \<le> 0" using 5(1) by simp
    show ?thesis
      unfolding tcp_options_loop.simps [of b p] 5(2,5) option.case 5(10) if_not_P [OF n] if_not_P [OF 5(3)]
        if_not_P [OF 5(4)] if_not_P [OF 5(6)] if_not_P [OF 5(11)]
      using w IH by (simp only: split: if_split option.split) blast
  qed (simp_all add: tcp_options_loop.simps [of b p])
qed

lemma sack_blocks_read: "q + 8 * k \<le> length b \<Longrightarrow> sack_blocks b q k sack \<noteq> None"
  by (induction k arbitrary: q sack) (simp_all del: not_None_eq)

lemma opts_wf_sack: "opts_wf b p n \<Longrightarrow> tcp_sack_loop b p (int n) sack \<noteq> None"
proof (induction n arbitrary: p rule: less_induct)
  case (less n p)
  from less.prems show ?case
  proof (cases rule: opts_wf_cases)
    case (3 m)
    then show ?thesis using less.IH [of m "Suc p"] by (simp add: tcp_sack_loop.simps [of b p])
  next
    case (5 q z m)
    have "Suc (Suc p) + 8 * ((unat z - 2) div 8) \<le> length b" if "2 \<le> unat z"
      using 5(7) that div_times_less_eq_dividend [of "unat z - 2" 8] by linarith
    then have w: "sack_blocks b (Suc (Suc p)) ((unat z - 2) div 8) sack \<noteq> None" if "2 \<le> unat z"
      using sack_blocks_read that by blast
    note IH = less.IH [OF 5(9,8)]
    have n: "\<not> int n \<le> 0" using 5(1) by simp
    show ?thesis
      unfolding tcp_sack_loop.simps [of b p] 5(2,5) option.case 5(10) if_not_P [OF n] if_not_P [OF 5(3)]
        if_not_P [OF 5(4)] if_not_P [OF 5(6)] if_not_P [OF 5(11)]
      using w IH by (simp only: split: if_split) fastforce
  qed (simp_all add: tcp_sack_loop.simps [of b p])
qed

definition tcp_readable :: "sk_buff \<Rightarrow> bool" where
  "tcp_readable skb \<longleftrightarrow> (let off = iph_ihl (skb_data skb) * 4 in
     case skb_header_pointer skb off 20 of None \<Rightarrow> True
     | Some th \<Rightarrow> 20 \<le> tcph_doff th * 4 \<and> off + tcph_doff th * 4 \<le> skb_len skb \<and> opts_wf (skb_data skb) (off + 20) (tcph_doff th * 4 - 20))"

lemma tcp_readable_th:
  assumes "tcp_readable skb" "skb_header_pointer skb (iph_ihl (skb_data skb) * 4) 20 = Some th"
  shows "tcp_options skb (skb_data skb) th st \<noteq> None" "tcp_sack skb (skb_data skb) th sack \<noteq> None"
    "tcp_in_window cfg t d idx skb (skb_data skb) th \<noteq> None"
proof -
  let ?off = "iph_ihl (skb_data skb) * 4"
  have a: "20 \<le> tcph_doff th * 4" "?off + tcph_doff th * 4 \<le> skb_len skb"
    "opts_wf (skb_data skb) (?off + 20) (tcph_doff th * 4 - 20)" using assms by (simp_all add: tcp_readable_def Let_def)
  have ol: "opt_length th = int (tcph_doff th * 4 - 20)" using a(1) by (simp add: opt_length_def)
  show t: "tcp_options skb (skb_data skb) th st \<noteq> None" for st
    using a(1,2) opts_wf_read [OF a(3)] by (simp add: tcp_options_def ol del: not_None_eq)
  show k: "tcp_sack skb (skb_data skb) th sack \<noteq> None" for sack
    using a(1,2) opts_wf_sack [OF a(3)] by (simp add: tcp_sack_def ol del: not_None_eq)
  show "tcp_in_window cfg t d idx skb (skb_data skb) th \<noteq> None"
  proof -
    have f: "tcp_options skb (skb_data skb) th st = Some (the (tcp_options skb (skb_data skb) th st))" for st using t [of st] by auto
    have i: "tcp_win_init t d skb (skb_data skb) th e win \<noteq> None" for e win
      unfolding tcp_win_init_def Let_def by (subst (1 2) f) simp
    obtain sack0 where k': "(if tflags (seen_at t (other_dir d)) AND IP_CT_TCP_FLAG_SACK_PERM \<noteq> 0
        then tcp_sack skb (skb_data skb) th (ntohl (tcph_ack_seq th)) else Some (ntohl (tcph_ack_seq th))) = Some sack0"
      using k by fastforce
    show ?thesis unfolding tcp_in_window_def Let_def k' using i by (simp split: option.split prod.split)
  qed
qed

text \<open>The entries of \<open>tcp_timeouts\<close> for the states of the transition table are there.\<close>

definition timeouts_set :: "tcp_sysctl \<Rightarrow> bool" where
  "timeouts_set cfg \<longleftrightarrow> (\<forall>x. sSS \<le> x \<and> x \<le> sCL \<longrightarrow> timeout_of cfg x \<noteq> None)"

lemma tcp_next_range:
  assumes "d = 0 \<or> d = 1" "tcp_next d idx old \<noteq> sIG" "tcp_next d idx old \<noteq> sIV" "old < sIV"
  shows "sSS \<le> tcp_next d idx old \<and> tcp_next d idx old \<le> sCL"
  using assms by (cases idx; cases old) (auto simp: tcp_next_def tcp_conntracks_def less_eq_tcp_conntrack_def less_tcp_conntrack_def)

lemma CTINFO2DIR_range: "CTINFO2DIR ctinfo = 0 \<or> CTINFO2DIR ctinfo = 1"
  by (simp add: CTINFO2DIR_def)

lemma tcp_ignored_wf: "tcp_wf t \<Longrightarrow> tcp_wf (tcp_ignored skb th d idx t)"
  by (simp add: tcp_wf_def tcp_ignored_def)

lemma tcp_enter_state_wf: "tcp_wf t \<Longrightarrow> new < sIV \<Longrightarrow> tcp_wf (tcp_enter_state d idx new t)"
  by (auto simp: tcp_wf_def tcp_enter_state_def Let_def set_seen_def seen_at_def)

lemma tcp_window_check_wf:
  "tcp_wf (tcp ct) \<Longrightarrow> tcp_window_check env ct d idx new skb th = Some (ok, t) \<Longrightarrow> tcp_wf t"
  using tcp_in_window_wf(1) by (auto simp: tcp_window_check_def split: if_splits)

lemma tcp_packet_ok:
  assumes i: "ct_inv ext {} s" and c: "0 < ext c"
    and th: "skb_header_pointer skb (iph_ihl (skb_data skb) * 4) 20 = Some th" and p: "tcp_readable skb"
    and cfg: "timeouts_set (tcp_cfg env)"
  shows "\<exists>r s'. tcp_packet env c skb ctinfo s = Some (r, s') \<and> tracked ext c s s' \<and> r \<in> {- 4, - 1, 0, 1}"
proof -
  obtain ct where ct: "cts s c = Some ct" using ct_inv_live [OF i c] by blast
  have wf: "tcp_wf (tcp ct)" by (rule typ_invD [OF ct_invD(5) [OF i] ct])
  define d where "d = CTINFO2DIR ctinfo"
  define idx where "idx = get_conntrack_index th"
  define new where "new = tcp_next d idx (tstate (tcp ct))"
  note defs = d_def [symmetric] idx_def [symmetric] new_def [symmetric]
  obtain was sk where k: "kill_now env c s = Some (was, sk)" "tracked ext c s sk" using kill_tracked [OF i c] by blast
  obtain si where si: "upd_ct c (\<lambda>ct. ct\<lparr>tcp := tcp_ignored skb th d idx (tcp ct)\<rparr>) s = Some si" "tracked ext c s si"
    using upd_tracked [OF i c mild_simps(2) [of "tcp_ignored skb th d idx", OF tcp_ignored_wf]] by blast
  consider (ignored) "new = sIG" | (invalid) "new = sIV" | (reopen) "new = sSS" "\<not> tstate (tcp ct) < sTW"
    | (go) "new \<noteq> sIG" "new \<noteq> sIV" "\<not> (new = sSS \<and> \<not> tstate (tcp ct) < sTW)" by blast
  then show ?thesis
  proof cases
    case ignored
    then show ?thesis using ct th k si by (simp add: tcp_packet_def Let_def defs)
  next
    case invalid
    then show ?thesis using ct th tracked_refl [OF i] by (simp add: tcp_packet_def Let_def defs)
  next
    case reopen
    then show ?thesis using ct th k tracked_refl [OF i] by (simp add: tcp_packet_def Let_def defs)
  next
    case go
    obtain ok t1 where w: "tcp_window_check env ct d idx new skb th = Some (ok, t1)"
      using tcp_readable_th(3) [OF p th] unfolding tcp_window_check_def by fastforce
    have rng: "sSS \<le> new" "new \<le> sCL"
      using tcp_next_range [of d idx "tstate (tcp ct)"] CTINFO2DIR_range [of ctinfo] go(1,2) wf
      by (simp_all add: new_def d_def tcp_wf_def)
    have nIV: "new < sIV" by (rule le_less_trans [OF rng(2)]) (simp add: less_tcp_conntrack_def)
    note wf1 = tcp_window_check_wf [OF wf w]
    note wf2 = tcp_enter_state_wf [OF wf1 nIV]
    obtain s1 where s1: "upd_ct c (\<lambda>ct. ct\<lparr>tcp := t1\<rparr>) s = Some s1" "tracked ext c s s1"
      using upd_tracked [OF i c mild_simps(5) [OF wf1]] by blast
    obtain s2 where s2: "upd_ct c (\<lambda>ct. ct\<lparr>tcp := tcp_enter_state d idx new t1\<rparr>) s1 = Some s2" "tracked ext c s1 s2"
      using upd_tracked [OF tracked_inv [OF s1(2)] c mild_simps(5) [OF wf2]] by blast
    note i2 = tracked_inv [OF s2(2)]
    have "timeout_of (tcp_cfg env) new \<noteq> None"
      using rng cfg by (simp add: timeouts_set_def)
    then obtain tmo where tmo: "tcp_timeout (tcp_cfg env) (tcp_enter_state d idx new t1) new = Some tmo" by (auto simp: tcp_timeout_def)
    obtain was' sk' where k': "kill_now env c s2 = Some (was', sk')" "tracked ext c s2 sk'" using kill_tracked [OF i2 c] by blast
    obtain s3 where s3: "(if tcp_assures ct (tstate (tcp ct)) new then upd_ct c (set_status IPS_ASSURED_BIT) s2 else Some s2) = Some s3" "tracked ext c s2 s3"
      using upd_tracked [OF i2 c, of "set_status IPS_ASSURED_BIT"] tracked_refl [OF i2] by (cases "tcp_assures ct (tstate (tcp ct)) new") auto
    obtain s4 where s4: "ip_ct_refresh_acct env c ctinfo skb tmo True s3 = Some s4" "tracked ext c s3 s4"
      using refresh_tracked [OF tracked_inv [OF s3(2)] c] by blast
    have t2: "tracked ext c s s2" by (rule tracked_trans [OF s1(2) s2(2)])
    have t4: "tracked ext c s s4" by (rule tracked_trans [OF t2 tracked_trans [OF s3(2) s4(2)]])
    have run: "tcp_packet env c skb ctinfo s = (if ok = 0 then Some (- 1, s1)
        else if \<not> test_status IPS_SEEN_REPLY_BIT ct \<and> tcph_rst th then Some (1, sk') else Some (1, s4))"
      using ct th go w s1(1) s2(1) tmo k'(1) s3(1) s4(1) by (cases "new = sSS") (simp_all add: tcp_packet_def Let_def defs)
    show ?thesis unfolding run using s1(2) tracked_trans [OF t2 k'(2)] t4 by simp
  qed
qed

lemma sample_timeouts: "timeouts_set (tcp_cfg sample_env)"
proof -
  have "timeout_of (tcp_cfg sample_env) x \<noteq> None" if "sSS \<le> x" "x \<le> sCL" for x
    using that by (cases x) (simp_all add: sample_env_def tcp_defaults_def tcp_timeouts_def less_eq_tcp_conntrack_def)
  then show ?thesis by (simp add: timeouts_set_def del: not_None_eq)
qed

text \<open>C27: The TCP tracker is type safe: on a table that satisfies the invariant, for a connection the caller holds and a segment
  with well-formed options, it neither faults nor reads outside the packet, its result is a verdict or a negated verdict, and
  in the new table every connection again has a state that is neither \<open>IGNORE\<close> nor \<open>INVALID\<close> and window scales of at most 14.
  Connections other than its own are found as before.\<close>

theorem tcp_packet_typed:
  assumes "ct_inv ext {} s" "0 < ext c" "skb_header_pointer skb (iph_ihl (skb_data skb) * 4) 20 = Some th" "tcp_readable skb"
    and "timeouts_set (tcp_cfg env)"
  shows "\<exists>r s'. tcp_packet env c skb ctinfo s = Some (r, s') \<and> r \<in> {- int (unat NF_REPEAT), - int (unat NF_ACCEPT), int (unat NF_DROP), int (unat NF_ACCEPT)}
    \<and> ct_inv ext {} s' \<and> (\<forall>a ct. cts s' a = Some ct \<longrightarrow> tcp_wf (tcp ct))
    \<and> (\<forall>t ign a d. a \<noteq> c \<and> ip_conntrack_find t ign s = Some (Some (a, d)) \<longrightarrow> ip_conntrack_find t ign s' = Some (Some (a, d)))"
proof -
  obtain r s' where r: "tcp_packet env c skb ctinfo s = Some (r, s')" "tracked ext c s s'" "r \<in> {- 4, - 1, 0, 1}"
    using tcp_packet_ok [OF assms] by blast
  note i = tracked_inv [OF r(2)]
  obtain gone where g: "gone \<subseteq> {c}" "\<forall>t ign. lookup s' t ign = without gone (lookup s t ign)" using r(2) unfolding tracked_def by blast
  have "ip_conntrack_find t ign s' = Some (Some (a, d))" if "a \<noteq> c" "ip_conntrack_find t ign s = Some (Some (a, d))" for t ign a d
    using that g find_lookup [OF ct_invD(1) [OF assms(1)]] find_lookup [OF ct_invD(1) [OF i]] by (auto simp: without_def)
  then show ?thesis using r i typ_invD [OF ct_invD(5) [OF i]] by auto
qed

theorem tcp_packet_typed_witness:
  "\<exists>r s'. tcp_packet sample_env 1 syn_pkt IP_CT_NEW sample1 = Some (r, s') \<and> (\<forall>a ct. cts s' a = Some ct \<longrightarrow> tcp_wf (tcp ct))"
proof -
  have p: "skb_header_pointer syn_pkt (iph_ihl (skb_data syn_pkt) * 4) 20 \<noteq> None" "tcp_readable syn_pkt" by code_simp+
  obtain th where th: "skb_header_pointer syn_pkt (iph_ihl (skb_data syn_pkt) * 4) 20 = Some th" using p(1) by blast
  show ?thesis using tcp_packet_typed [OF sample1_inv _ th p(2) sample_timeouts, of 1 IP_CT_NEW] by auto
qed

end
