(* ===== verification/Spec2Isabelle.thy ===== *)
theory Spec2Isabelle
  imports Ip_Tables_Sockopt Xt_Tcpudp Xt_Limit Ct_Trackers
begin

text \<open>
  \<^bold>\<open>The packet path of the FVS318G firmware.\<close>

  The repository builds a custom firmware for a NAT router: a Linux 2.6.16 kernel for the STR9100 ARM board, a busybox
  user space and a firewall script. What decides about every packet is the netfilter code of the kernel,
  \<^verbatim>\<open>src/linux-2.6.16-star/net/ipv4/netfilter\<close> and \<^verbatim>\<open>net/netfilter\<close>: the rule tables, the matches, connection tracking and
  address translation. This library models that code as it is configured for the board (\<^verbatim>\<open>CONFIG_STR9100_SHNAT\<close>,
  \<^verbatim>\<open>CONFIG_IP_NF_CT_ACCT\<close>, connection marks, NAT and masquerading compiled in; no SMP, no events, no debugging).

  \<^bold>\<open>Parts, theories and how they interact.\<close>

  \<^item> \<open>Prelude\<close>, \<open>Checksum\<close>, \<open>Skbuff\<close>: words, byte buffers and byte order; the Internet checksum of \<^verbatim>\<open>csumpartial.S\<close> as
    carry chains; packets, IP/TCP/UDP/ICMP header fields and \<open>skb_header_pointer\<close>. The lemmas show the checksum routines equal to
    one's complement sums and the incremental update of \<open>ip_nat_cheat_check\<close> correct.
  \<^item> \<open>Ip_Tables\<close>, \<open>X_Tables\<close>, \<open>Ip_Tables_Check\<close>, \<open>Mark_Chains\<close>, \<open>Translate\<close>, \<open>Do_Table\<close>, \<open>Ip_Tables_Ctl\<close>,
    \<open>Ip_Tables_Sockopt\<close>, \<open>Sample_Table\<close>: \<^verbatim>\<open>ip_tables.c\<close> and \<^verbatim>\<open>x_tables.c\<close>. A table is a blob of entries at byte offsets;
    \<open>translate_table\<close> checks a user's blob (sizes, hook entry points, loops by pointer reversal in \<open>mark_source_chains\<close>, matches and
    targets), \<open>ipt_do_table\<close> runs it, \<open>do_replace\<close> swaps it and hands back the counters. The main result: a blob that passes the
    checks is run without fault and within a bound on the steps, and ends in a verdict.
  \<^item> \<open>Xt_Tcpudp\<close>, \<open>Xt_Limit\<close>: the tcp, udp, multiport and limit matches with their checks.
  \<^item> \<open>Ct_Tuple\<close>: connection tuples, their hash, extraction from packets and inversion. \<open>Ct_Tcp_Window\<close>: TCP options,
    selective acknowledgements, \<open>tcp_in_window\<close> and the state table of \<^verbatim>\<open>ip_conntrack_proto_tcp.c\<close>.
  \<^item> \<open>Ct_Core\<close>: the connection table of \<^verbatim>\<open>ip_conntrack_core.c\<close> as a store: connections, expectations and helpers at
    addresses, hash chains, timers, reference counts. \<open>Ct_Table\<close>, \<open>Ct_Refs\<close>, \<open>Ct_Ops\<close>, \<open>Ct_Alloc\<close>: its invariant
    \<open>ct_inv\<close> (chains and tuples, expectations and masters, NAT chains, reference counts equal to the number of holders, well-formed
    tracking data) and that confirmation, timeouts, early drop, allocation, release and rehashing keep it.
  \<^item> \<open>Ct_Track\<close>, \<open>Ct_Trackers\<close>: the protocol trackers and the tracking hook \<open>ip_conntrack_in\<close>.

  \<^bold>\<open>How the code is rendered.\<close> Structures are records with the fields of the C structures, machine words are \<open>u8\<close>,
  \<open>u16\<close>, \<open>u32\<close>; fields in network order are kept as the little-endian machine reads them and converted by \<open>ntohs\<close> and
  \<open>ntohl\<close> where the code does. Pointers to connections are addresses into a map; dereferencing a dead one is \<open>None\<close>, as is
  \<open>BUG_ON\<close> and a read outside the packet, so that ``returns \<open>Some\<close>'' is memory safety. In \<^verbatim>\<open>ip_tables.c\<close> the same role is
  played by \<open>Fault\<close>. The clock, the outcome of allocations, random numbers and the answer of the hardware NAT module are fields of
  \<open>ct_env\<close>; match and target extensions of a table are parameters.

  \<^bold>\<open>Bounds and fuel.\<close> \<open>ipt_do_table\<close> and \<open>mark_source_chains\<close> may not end on a blob that was never checked; they run with
  fuel, and the theorems give a number of steps that suffices for checked blobs. All other loops are proved to end, with a
  measure or by structural recursion.

  \<^bold>\<open>Not modelled.\<close> Locking and concurrency: the board has one CPU and every operation modelled here runs under the lock the
  code takes, so operations are atomic steps. Statistics, logging, \<^verbatim>\<open>/proc\<close> files, sysctl tables and hook registration have no
  effect on packets. Application helpers (FTP, IRC, TFTP, PPTP) parse payloads and act only through expectations, which are
  modelled. Fragment reassembly and routing come before the modelled code: packets are whole datagrams and the route is an
  input. The hardware NAT module is only called through function pointers in this tree. User space (iptables, busybox, wget, irqd,
  iptadmin) and the board's drivers are I/O around the packet path.
\<close>

end
